theory Spec2Isabelle
  imports Main
begin

section \<open>The type-erased value container \<open>my_std::any\<close>\<close>

text \<open>
  The development embeds the header \<open>any.hpp\<close> (namespace \<open>my_std\<close>): the class
  \<open>any\<close> with its nested \<open>placeholder\<close>/\<open>holder<ValueType>\<close> classes, and the five
  overloads of the free function template \<open>any_cast\<close>.

  The header is written against three facilities of the language and its standard
  library, which are modelled first: the type traits and \<open>typeid\<close>, the constructors of
  the stored (user-chosen) value type, and \<open>std::unique_ptr\<close> with the free store.
\<close>

subsection \<open>C++ types, the type traits and \<open>typeid\<close>\<close>

text \<open>
  The object types a container can store. Arrays and functions are left out (they are
  never stored as such), and so are \<open>void\<close> (no object has that type; \<open>holder<void>\<close>
  is ill-formed) and \<open>any\<close> itself (for an argument of that type the \<open>enable_if\<close> removes
  the value constructor and the value assignment from overload resolution, and the
  copy or move operation is chosen). The pointer type records whether the pointee is
  const.
\<close>

datatype object_type =
    t_bool | t_char | t_int | t_double
  | t_string
  | t_vector object_type
  | t_pointer bool object_type
  | t_class string

datatype ref_kind = NoRef | LvalueRef | RvalueRef

text \<open>
  A type as a template argument: a possibly cv-qualified object type, or a reference
  to one (the qualifiers are then those of the referenced type).
\<close>

datatype cpp_type =
  CppType (refness: ref_kind) (is_const: bool) (is_volatile: bool) (base: object_type)

definition is_reference :: "cpp_type \<Rightarrow> bool" where
  "is_reference T = (refness T \<noteq> NoRef)"

definition remove_reference :: "cpp_type \<Rightarrow> cpp_type" where
  "remove_reference T = CppType NoRef (is_const T) (is_volatile T) (base T)"

text \<open>\<open>std::remove_cv\<close> removes the top-level qualifiers; a reference type has none.\<close>

definition remove_cv :: "cpp_type \<Rightarrow> cpp_type" where
  "remove_cv T = (if refness T = NoRef then CppType NoRef False False (base T) else T)"

text \<open>\<open>std::decay\<close> on the types modelled here (no arrays, no functions).\<close>

definition decay :: "cpp_type \<Rightarrow> cpp_type" where
  "decay T = remove_cv (remove_reference T)"

text \<open>
  \<open>std::type_info\<close>, compared with \<open>==\<close>/\<open>!=\<close>: one identifier per object type, and the
  identifier of \<open>void\<close>. \<open>typeid(T)\<close> ignores a reference and the top-level
  cv-qualifiers of \<open>T\<close>.
\<close>

datatype type_info = typeid_void | typeid_of object_type

definition typeid :: "cpp_type \<Rightarrow> type_info" where
  "typeid T = typeid_of (base T)"

subsection \<open>The stored value type\<close>

text \<open>
  The container is generic in the stored type, whose copy and move constructors it
  calls. They are parameters of the model: the copy constructor reads its (const)
  argument and either throws or yields the new value; the move constructor either
  throws or yields the new value, and leaves its argument in some moved-from state.
\<close>

record ('v, 'e) value_ops =
  copy_construct :: "'v \<Rightarrow> 'e + 'v"
  move_construct :: "'v \<Rightarrow> ('e + 'v) \<times> 'v"

text \<open>
  \<open>class bad_any_cast : public std::exception\<close>, and the exceptions of the stored
  type's constructors, which the container lets through.
\<close>

datatype 'e exn = bad_any_cast | value_exception 'e

subsection \<open>Holders and the free store\<close>

type_synonym addr = nat

text \<open>
  \<open>struct holder : placeholder { ValueType value; ... }\<close>: the dynamic type of a
  placeholder is \<open>holder<ValueType>\<close> for one \<open>ValueType\<close>, recorded here as a field.
\<close>

record 'v holder =
  ValueType :: cpp_type
  val :: 'v

text \<open>
  The free store: a cell is a live holder or has been deleted. \<open>new\<close> never reuses an
  address (and never fails: running out of memory is not modelled).
\<close>

type_synonym 'v store = "'v holder option list"

definition holder_at :: "'v store \<Rightarrow> addr \<Rightarrow> 'v holder option" where
  "holder_at h p = (if p < length h then h ! p else None)"

text \<open>
  Dereferencing a pointer to a placeholder. A pointer that does not designate a live
  holder has no defined behaviour in C++, and none is claimed here: the theorems assume
  the invariant \<open>wf\<close> below, under which it does not happen.
\<close>

definition deref :: "'v store \<Rightarrow> addr \<Rightarrow> 'v holder" where
  "deref h p = (case holder_at h p of Some hl \<Rightarrow> hl | None \<Rightarrow> undefined)"

text \<open>
  The argument of the holder's constructor, of the value constructor and of the value
  assignment is bound by reference (\<open>T&&\<close>, \<open>ValueType&&\<close>). The object it refers to is
  either an object of the caller, outside the state and given by its value, or the
  value held in a holder (the member \<open>value\<close> in \<open>clone\<close>; for a caller, what
  \<open>any_cast<X&>(a)\<close> or \<open>*any_cast<X>(&a)\<close> designates).
\<close>

datatype 'v argument = caller_object 'v | held_value addr

definition argument_value :: "'v store \<Rightarrow> 'v argument \<Rightarrow> 'v" where
  "argument_value h arg = (case arg of caller_object v \<Rightarrow> v | held_value p \<Rightarrow> val (deref h p))"

text \<open>
  Initialising a \<open>ValueType value\<close> from \<open>std::forward<T>(val)\<close>: an lvalue or a
  cv-qualified rvalue selects the copy constructor, which leaves its argument as it
  is; any other rvalue selects the move constructor, which leaves the object referred
  to in the moved-from state, also when it throws. When that object is a held value,
  the store changes; what a move leaves in an object of the caller is
  \<open>snd (move_construct ops v)\<close>, outside the state.
\<close>

definition forward_construct ::
  "('v, 'e) value_ops \<Rightarrow> cpp_type \<Rightarrow> 'v argument \<Rightarrow> 'v store \<Rightarrow> ('e + 'v) \<times> 'v store" where
  "forward_construct ops T arg h =
     (if refness T = LvalueRef \<or> is_const T \<or> is_volatile T
      then (copy_construct ops (argument_value h arg), h)
      else (let (r, moved_from) = move_construct ops (argument_value h arg)
            in (r, case arg of
                     caller_object _ \<Rightarrow> h
                   | held_value p \<Rightarrow> h[p := Some ((deref h p)\<lparr>val := moved_from\<rparr>)])))"

text \<open>
  \<open>std::make_unique<holder<VT>>(std::forward<T>(val))\<close>, with the holder's constructor
  \<open>explicit holder(T&& val) : value(std::forward<T>(val)) {}\<close>. When the constructor of
  the value throws, the memory is released again and the exception propagates; the
  store is then as the constructor left it.
\<close>

definition make_unique_holder ::
  "('v, 'e) value_ops \<Rightarrow> cpp_type \<Rightarrow> cpp_type \<Rightarrow> 'v argument \<Rightarrow> 'v store \<Rightarrow>
     ('e exn + addr) \<times> 'v store" where
  "make_unique_holder ops VT T arg h =
     (case forward_construct ops T arg h of
        (Inl e, h1) \<Rightarrow> (Inl (value_exception e), h1)
      | (Inr v', h1) \<Rightarrow> (Inr (length h1), h1 @ [Some \<lparr>ValueType = VT, val = v'\<rparr>]))"

text \<open>
  \<open>std::unique_ptr<placeholder> clone() const override
      { return std::make_unique<holder<ValueType>>(value); }\<close>
  called on the holder at \<open>p\<close>. The argument \<open>value\<close> is its own held value, as a const
  lvalue of type \<open>ValueType\<close>.
\<close>

definition holder_clone ::
  "('v, 'e) value_ops \<Rightarrow> addr \<Rightarrow> 'v store \<Rightarrow> ('e exn + addr) \<times> 'v store" where
  "holder_clone ops p h =
     make_unique_holder ops (ValueType (deref h p))
       (CppType LvalueRef True (is_volatile (ValueType (deref h p))) (base (ValueType (deref h p))))
       (held_value p) h"

text \<open>\<open>const std::type_info& type() const noexcept override { return typeid(ValueType); }\<close>\<close>

definition holder_type :: "'v holder \<Rightarrow> type_info" where
  "holder_type hl = typeid (ValueType hl)"

text \<open>The deleter of \<open>std::unique_ptr\<close>: nothing for a null pointer, else \<open>delete\<close>.\<close>

definition delete_holder :: "addr option \<Rightarrow> 'v store \<Rightarrow> 'v store" where
  "delete_holder c h = (case c of None \<Rightarrow> h | Some p \<Rightarrow> h[p := None])"

subsection \<open>The class \<open>any\<close>\<close>

text \<open>
  \<open>std::unique_ptr<placeholder> content;\<close> is the only data member. The objects of type
  \<open>any\<close> are kept in a stack, in the order of their construction, and named by their
  position: a constructor pushes the object it builds and returns its name, the
  destructor pops the most recent object (automatic objects and temporaries die in the
  reverse order of their construction). Two names alias exactly when they are equal.
  A reference (\<open>any&\<close>, \<open>this\<close>) always designates a live object: the theorems about a
  container \<open>a\<close> in a state \<open>s\<close> assume \<open>a < length (objs s)\<close> wherever that matters.
\<close>

type_synonym ref = nat

record any =
  content :: "addr option"

record 'v state =
  objs :: "any list"
  heap :: "'v store"

text \<open>
  A function that may throw returns the exception or its result, and the state it
  leaves; \<open>and_then\<close> runs the rest of a function body after it (nothing more runs
  after a throw). A function declared \<open>noexcept\<close>, whose body has no throwing operation,
  has no exceptional outcome: it returns its result (if any) and the state.
\<close>

type_synonym ('a, 'e, 'v) action = "'v state \<Rightarrow> ('e exn + 'a) \<times> 'v state"

definition and_then ::
  "('e exn + 'a) \<times> 'v state \<Rightarrow> ('a \<Rightarrow> ('b, 'e, 'v) action) \<Rightarrow> ('e exn + 'b) \<times> 'v state" where
  "and_then m f = (case m of (Inl e, s) \<Rightarrow> (Inl e, s) | (Inr a, s) \<Rightarrow> f a s)"

text \<open>\<open>constexpr any() noexcept = default;\<close>\<close>

definition any_ctor_default :: "'v state \<Rightarrow> ref \<times> 'v state" where
  "any_ctor_default s =
     (length (objs s), s\<lparr>objs := objs s @ [\<lparr>content = None\<rparr>]\<rparr>)"

text \<open>
  \<open>any(const any& other) { if (other.content) { content = other.content->clone(); } }\<close>
\<close>

definition any_ctor_copy :: "('v, 'e) value_ops \<Rightarrow> ref \<Rightarrow> (ref, 'e, 'v) action" where
  "any_ctor_copy ops other s =
     (case content (objs s ! other) of
        None \<Rightarrow> (Inr (length (objs s)), s\<lparr>objs := objs s @ [\<lparr>content = None\<rparr>]\<rparr>)
      | Some p \<Rightarrow>
          (case holder_clone ops p (heap s) of
             (Inl e, h1) \<Rightarrow> (Inl e, s\<lparr>heap := h1\<rparr>)
           | (Inr q, h') \<Rightarrow>
               (Inr (length (objs s)),
                \<lparr>objs = objs s @ [\<lparr>content = Some q\<rparr>], heap = h'\<rparr>)))"

text \<open>
  \<open>any(any&& other) noexcept = default;\<close> moves the member: the new object takes the
  pointer and \<open>other.content\<close> becomes null.
\<close>

definition any_ctor_move :: "ref \<Rightarrow> 'v state \<Rightarrow> ref \<times> 'v state" where
  "any_ctor_move other s =
     (length (objs s),
      s\<lparr>objs := (objs s)[other := \<lparr>content = None\<rparr>] @ [\<lparr>content = content (objs s ! other)\<rparr>]\<rparr>)"

text \<open>
  \<open>template<typename ValueType, typename = ...> any(ValueType&& value)
     : content(std::make_unique<holder<std::decay_t<ValueType>>>(
         std::forward<ValueType>(value))) {}\<close>
\<close>

definition any_ctor_value ::
  "('v, 'e) value_ops \<Rightarrow> cpp_type \<Rightarrow> 'v argument \<Rightarrow> (ref, 'e, 'v) action" where
  "any_ctor_value ops T arg s =
     (case make_unique_holder ops (decay T) T arg (heap s) of
        (Inl e, h1) \<Rightarrow> (Inl e, s\<lparr>heap := h1\<rparr>)
      | (Inr q, h') \<Rightarrow>
          (Inr (length (objs s)), \<lparr>objs = objs s @ [\<lparr>content = Some q\<rparr>], heap = h'\<rparr>))"

text \<open>\<open>~any() = default;\<close> of the most recent object: its member deletes the holder.\<close>

definition any_dtor :: "'v state \<Rightarrow> 'v state" where
  "any_dtor s =
     \<lparr>objs = butlast (objs s), heap = delete_holder (content (last (objs s))) (heap s)\<rparr>"

text \<open>\<open>void swap(any& other) noexcept { content.swap(other.content); }\<close>\<close>

definition any_swap :: "ref \<Rightarrow> ref \<Rightarrow> 'v state \<Rightarrow> 'v state" where
  "any_swap this other s =
     s\<lparr>objs := (objs s)[this := \<lparr>content = content (objs s ! other)\<rparr>,
                        other := \<lparr>content = content (objs s ! this)\<rparr>]\<rparr>"

text \<open>\<open>void reset() noexcept { content.reset(); }\<close>\<close>

definition any_reset :: "ref \<Rightarrow> 'v state \<Rightarrow> 'v state" where
  "any_reset this s =
     \<lparr>objs = (objs s)[this := \<lparr>content = None\<rparr>],
      heap = delete_holder (content (objs s ! this)) (heap s)\<rparr>"

text \<open>
  \<open>any& operator=(const any& rhs) { any(rhs).swap(*this); return *this; }\<close>
  The temporary dies at the end of the full expression.
\<close>

definition any_assign_copy :: "('v, 'e) value_ops \<Rightarrow> ref \<Rightarrow> ref \<Rightarrow> (ref, 'e, 'v) action" where
  "any_assign_copy ops this rhs s =
     and_then (any_ctor_copy ops rhs s) (\<lambda>tmp s1.
       (Inr this, any_dtor (any_swap tmp this s1)))"

text \<open>
  \<open>any& operator=(any&& rhs) noexcept { any(std::move(rhs)).swap(*this); return *this; }\<close>
\<close>

definition any_assign_move :: "ref \<Rightarrow> ref \<Rightarrow> 'v state \<Rightarrow> ref \<times> 'v state" where
  "any_assign_move this rhs s =
     (let (tmp, s1) = any_ctor_move rhs s
      in (this, any_dtor (any_swap tmp this s1)))"

text \<open>
  \<open>template<typename ValueType, typename = ...> any& operator=(ValueType&& rhs)
     { any(std::forward<ValueType>(rhs)).swap(*this); return *this; }\<close>
\<close>

definition any_assign_value ::
  "('v, 'e) value_ops \<Rightarrow> ref \<Rightarrow> cpp_type \<Rightarrow> 'v argument \<Rightarrow> (ref, 'e, 'v) action" where
  "any_assign_value ops this T arg s =
     and_then (any_ctor_value ops T arg s) (\<lambda>tmp s1.
       (Inr this, any_dtor (any_swap tmp this s1)))"

text \<open>\<open>bool has_value() const noexcept { return content != nullptr; }\<close>\<close>

definition any_has_value :: "'v state \<Rightarrow> ref \<Rightarrow> bool" where
  "any_has_value s this = (content (objs s ! this) \<noteq> None)"

text \<open>
  \<open>const std::type_info& type() const noexcept
     { if (!content) { return typeid(void); } return content->type(); }\<close>
\<close>

definition any_type :: "'v state \<Rightarrow> ref \<Rightarrow> type_info" where
  "any_type s this =
     (case content (objs s ! this) of
        None \<Rightarrow> typeid_void
      | Some p \<Rightarrow> holder_type (deref (heap s) p))"

text \<open>\<open>inline void swap(any& lhs, any& rhs) noexcept { lhs.swap(rhs); }\<close>\<close>

definition swap_any :: "ref \<Rightarrow> ref \<Rightarrow> 'v state \<Rightarrow> 'v state" where
  "swap_any lhs rhs s = any_swap lhs rhs s"

subsection \<open>\<open>any_cast\<close>\<close>

text \<open>
  The pointer forms. The operand is a pointer to an \<open>any\<close> or null, the result a pointer
  to the member \<open>value\<close> of the holder (named by the holder's address) or null.
  \<open>template<typename T> const T* any_cast(const any* operand) noexcept {
      if (!operand || operand->type() != typeid(T)) { return nullptr; }
      const auto* holder = static_cast<const any::holder<T>*>(operand->content.get());
      return &holder->value; }\<close>
  and the same body without \<open>const\<close> for \<open>T* any_cast(any* operand) noexcept\<close>.
\<close>

definition any_cast_const_pointer :: "cpp_type \<Rightarrow> ref option \<Rightarrow> 'v state \<Rightarrow> addr option" where
  "any_cast_const_pointer T operand s =
     (case operand of
        None \<Rightarrow> None
      | Some a \<Rightarrow> if any_type s a \<noteq> typeid T then None else content (objs s ! a))"

definition any_cast_pointer :: "cpp_type \<Rightarrow> ref option \<Rightarrow> 'v state \<Rightarrow> addr option" where
  "any_cast_pointer T operand s =
     (case operand of
        None \<Rightarrow> None
      | Some a \<Rightarrow> if any_type s a \<noteq> typeid T then None else content (objs s ! a))"

text \<open>
  What a value form returns: a reference to the held value when \<open>T\<close> is a reference
  type, else an object of type \<open>T\<close> initialised from the held value.
\<close>

datatype 'v extracted = by_reference addr | by_value 'v

text \<open>
  \<open>template<typename T> T any_cast(const any& operand) {
      using value_type = std::remove_cv_t<std::remove_reference_t<T>>;
      const auto* result = any_cast<value_type>(&operand);
      if (!result) { throw bad_any_cast(); }
      if constexpr (std::is_reference_v<T>) { return *const_cast<value_type*>(result); }
      else { return *result; } }\<close>
\<close>

definition any_cast_const_lvalue ::
  "('v, 'e) value_ops \<Rightarrow> cpp_type \<Rightarrow> ref \<Rightarrow> ('v extracted, 'e, 'v) action" where
  "any_cast_const_lvalue ops T operand s =
     (let value_type = remove_cv (remove_reference T) in
      case any_cast_const_pointer value_type (Some operand) s of
        None \<Rightarrow> (Inl bad_any_cast, s)
      | Some result \<Rightarrow>
          if is_reference T then (Inr (by_reference result), s)
          else (case copy_construct ops (val (deref (heap s) result)) of
                  Inl e \<Rightarrow> (Inl (value_exception e), s)
                | Inr v \<Rightarrow> (Inr (by_value v), s)))"

text \<open>
  \<open>template<typename T> T any_cast(any& operand) {
      using value_type = std::remove_cv_t<std::remove_reference_t<T>>;
      auto* result = any_cast<value_type>(&operand);
      if (!result) { throw bad_any_cast(); }
      if constexpr (std::is_reference_v<T>) { return *result; }
      else { return *result; } }\<close>
\<close>

definition any_cast_lvalue ::
  "('v, 'e) value_ops \<Rightarrow> cpp_type \<Rightarrow> ref \<Rightarrow> ('v extracted, 'e, 'v) action" where
  "any_cast_lvalue ops T operand s =
     (let value_type = remove_cv (remove_reference T) in
      case any_cast_pointer value_type (Some operand) s of
        None \<Rightarrow> (Inl bad_any_cast, s)
      | Some result \<Rightarrow>
          if is_reference T then (Inr (by_reference result), s)
          else (case copy_construct ops (val (deref (heap s) result)) of
                  Inl e \<Rightarrow> (Inl (value_exception e), s)
                | Inr v \<Rightarrow> (Inr (by_value v), s)))"

text \<open>
  \<open>template<typename T> T any_cast(any&& operand) {
      using value_type = std::remove_cv_t<std::remove_reference_t<T>>;
      auto* result = any_cast<value_type>(&operand);
      if (!result) { throw bad_any_cast(); }
      if constexpr (std::is_reference_v<T>) { return std::forward<T>(*result); }
      else { return std::move(*result); } }\<close>
  In the last branch the result is move-constructed from the held value, which stays in
  its holder in the moved-from state.
\<close>

definition any_cast_rvalue ::
  "('v, 'e) value_ops \<Rightarrow> cpp_type \<Rightarrow> ref \<Rightarrow> ('v extracted, 'e, 'v) action" where
  "any_cast_rvalue ops T operand s =
     (let value_type = remove_cv (remove_reference T) in
      case any_cast_pointer value_type (Some operand) s of
        None \<Rightarrow> (Inl bad_any_cast, s)
      | Some result \<Rightarrow>
          if is_reference T then (Inr (by_reference result), s)
          else (let hl = deref (heap s) result;
                    (r, moved_from) = move_construct ops (val hl);
                    s' = s\<lparr>heap := (heap s)[result := Some (hl\<lparr>val := moved_from\<rparr>)]\<rparr>
                in case r of
                     Inl e \<Rightarrow> (Inl (value_exception e), s')
                   | Inr v \<Rightarrow> (Inr (by_value v), s')))"

text \<open>
  Caller code: an assignment through the pointer or the reference that a mutable
  extraction returned, \<open>*any_cast<T>(&a) = v\<close> or \<open>any_cast<T&>(a) = v\<close>.
\<close>

definition assign_through :: "addr \<Rightarrow> 'v \<Rightarrow> 'v state \<Rightarrow> 'v state" where
  "assign_through p v s = s\<lparr>heap := (heap s)[p := Some ((deref (heap s) p)\<lparr>val := v\<rparr>)]\<rparr>"

subsection \<open>The representation invariant\<close>

text \<open>
  \<open>live h p\<close>: the address designates a holder that has not been deleted.
  \<open>owned s\<close>: the non-null \<open>content\<close> pointers, in the order of their objects.
  \<open>wf s\<close>: every non-null \<open>content\<close> designates a live holder (a container with a holder
  has a value), no holder has two owners, and the \<open>ValueType\<close> of every live holder is a
  decayed type (no reference, no top-level cv-qualifier).
\<close>

definition live :: "'v store \<Rightarrow> addr \<Rightarrow> bool" where
  "live h p = (holder_at h p \<noteq> None)"

definition owned :: "'v state \<Rightarrow> addr list" where
  "owned s = List.map_filter content (objs s)"

definition decayed_holder :: "'v holder option \<Rightarrow> bool" where
  "decayed_holder c = (case c of None \<Rightarrow> True | Some hl \<Rightarrow> decay (ValueType hl) = ValueType hl)"

definition wf :: "'v state \<Rightarrow> bool" where
  "wf s = (list_all (live (heap s)) (owned s) \<and> distinct (owned s) \<and>
           list_all decayed_holder (heap s))"

text \<open>
  The three parts of \<open>wf\<close> stated by positions, for the proofs (\<open>wf_iff\<close> below).
\<close>

definition no_dangling :: "any list \<Rightarrow> 'v store \<Rightarrow> bool" where
  "no_dangling os h = (\<forall>i<length os. \<forall>p. content (os ! i) = Some p \<longrightarrow> live h p)"

definition one_owner :: "any list \<Rightarrow> bool" where
  "one_owner os = (\<forall>i<length os. \<forall>j<length os. \<forall>p.
      content (os ! i) = Some p \<and> content (os ! j) = Some p \<longrightarrow> i = j)"

definition decayed_store :: "'v store \<Rightarrow> bool" where
  "decayed_store h = (\<forall>p hl. holder_at h p = Some hl \<longrightarrow> decay (ValueType hl) = ValueType hl)"

text \<open>
  A reference to a held value designates the value of a live holder; an object of the
  caller is always there.
\<close>

definition valid_argument :: "'v store \<Rightarrow> 'v argument \<Rightarrow> bool" where
  "valid_argument h arg = (case arg of caller_object _ \<Rightarrow> True | held_value p \<Rightarrow> live h p)"

subsection \<open>An instance: the values of the demonstration program\<close>

text \<open>
  The demonstration program stores integers, strings and vectors of integers. The
  instance below gives them constructors: copying the string \<open>throws on copy\<close> throws,
  every other copy yields an equal value; a move yields the value and leaves a string or
  a vector empty.
\<close>

datatype cpp_value = IntV int | StringV string | VectorV "int list"

definition example_ops :: "(cpp_value, string) value_ops" where
  "example_ops =
     \<lparr>copy_construct =
        (\<lambda>v. if v = StringV ''throws on copy'' then Inl ''copy failed'' else Inr v),
      move_construct =
        (\<lambda>v. (Inr v, case v of IntV i \<Rightarrow> IntV i | StringV _ \<Rightarrow> StringV [] | VectorV _ \<Rightarrow> VectorV []))\<rparr>"

text \<open>
  A second instance, whose move constructor empties its argument and then throws.
\<close>

definition throwing_move_ops :: "(cpp_value, string) value_ops" where
  "throwing_move_ops =
     \<lparr>copy_construct = (\<lambda>v. Inr v),
      move_construct = (\<lambda>v. (Inl ''move failed'', StringV []))\<rparr>"

definition T_int :: cpp_type where
  "T_int = CppType NoRef False False t_int"

definition T_double :: cpp_type where
  "T_double = CppType NoRef False False t_double"

definition T_string :: cpp_type where
  "T_string = CppType NoRef False False t_string"

definition T_const_int_ref :: cpp_type where
  "T_const_int_ref = CppType LvalueRef True False t_int"

definition T_const_string_ref :: cpp_type where
  "T_const_string_ref = CppType LvalueRef True False t_string"

text \<open>
  Four containers: a string, an empty one, an integer, and a string whose copy throws.
\<close>

definition example_state :: "cpp_value state" where
  "example_state =
     \<lparr>objs = [\<lparr>content = Some 0\<rparr>, \<lparr>content = None\<rparr>, \<lparr>content = Some 1\<rparr>,
              \<lparr>content = Some 2\<rparr>],
      heap = [Some \<lparr>ValueType = T_string, val = StringV ''Hello, any!''\<rparr>,
              Some \<lparr>ValueType = T_int, val = IntV 42\<rparr>,
              Some \<lparr>ValueType = T_string, val = StringV ''throws on copy''\<rparr>]\<rparr>"

section \<open>Properties\<close>

subsection \<open>Auxiliary facts\<close>

lemma and_then_simps:
  "and_then (Inl e, s) f = (Inl e, s)"
  "and_then (Inr a, s) f = f a s"
  by (simp_all add: and_then_def)

lemma typeid_not_void: "typeid T \<noteq> typeid_void"
  by (simp add: typeid_def)

lemma typeid_value_type: "typeid (remove_cv (remove_reference T)) = typeid T"
  by (simp add: typeid_def remove_cv_def remove_reference_def)

lemma typeid_decay: "typeid (decay T) = typeid T"
  by (simp add: decay_def typeid_value_type)

lemma decay_neq_iff: "(decay U \<noteq> decay T) = (typeid U \<noteq> typeid T)"
  by (simp add: decay_def typeid_def remove_cv_def remove_reference_def)

lemma holder_at_snoc:
  "holder_at (h @ [c]) p = (if p = length h then c else holder_at h p)"
  by (auto simp: holder_at_def nth_append)

lemma const_pointer_eq: "any_cast_const_pointer T operand s = any_cast_pointer T operand s"
  by (simp add: any_cast_const_pointer_def any_cast_pointer_def)

lemma pointer_null_iff:
  "(any_cast_pointer T (Some a) s = None) = (\<not> any_has_value s a \<or> any_type s a \<noteq> typeid T)"
  by (auto simp: any_cast_pointer_def any_has_value_def any_type_def typeid_not_void)

lemma example_lengths:
  "length (objs example_state) = 4" "length (heap example_state) = 3"
  by (simp_all add: example_state_def)

lemma example_contents:
  "content (objs example_state ! 0) = Some 0"
  "content (objs example_state ! Suc 0) = None"
  "content (objs example_state ! 2) = Some 1"
  "content (objs example_state ! 3) = Some 2"
  by (simp_all add: example_state_def)

lemma example_holders:
  "holder_at (heap example_state) 0 = Some \<lparr>ValueType = T_string, val = StringV ''Hello, any!''\<rparr>"
  "holder_at (heap example_state) (Suc 0) = Some \<lparr>ValueType = T_int, val = IntV 42\<rparr>"
  "holder_at (heap example_state) 2 = Some \<lparr>ValueType = T_string, val = StringV ''throws on copy''\<rparr>"
  "holder_at (heap example_state) 3 = None"
  by (simp_all add: example_state_def holder_at_def)

lemma example_types:
  "any_type example_state 0 = typeid T_string"
  "any_type example_state (Suc 0) = typeid_void"
  "any_type example_state 2 = typeid T_int"
  "any_type example_state 3 = typeid T_string"
  by (simp_all add: any_type_def holder_type_def deref_def example_contents example_holders)

lemma example_decay:
  "decay T_const_int_ref = T_int" "decay T_const_string_ref = T_string"
  "decay T_int = T_int" "decay T_string = T_string" "decay T_double = T_double"
  "remove_cv (remove_reference T_int) = T_int"
  "remove_cv (remove_reference T_string) = T_string"
  by (simp_all add: decay_def remove_cv_def remove_reference_def T_const_int_ref_def
      T_const_string_ref_def T_int_def T_string_def T_double_def)

lemma example_typeids:
  "typeid T_int = typeid_of t_int" "typeid T_string = typeid_of t_string"
  "typeid T_double = typeid_of t_double"
  by (simp_all add: typeid_def T_int_def T_string_def T_double_def)

lemma swap_twice_objs:
  assumes "a < length os" "b < length os"
  shows "(os[a := \<lparr>content = content (os ! b)\<rparr>, b := \<lparr>content = content (os ! a)\<rparr>])
           [b := \<lparr>content = content ((os[a := \<lparr>content = content (os ! b)\<rparr>, b := \<lparr>content = content (os ! a)\<rparr>]) ! a)\<rparr>,
            a := \<lparr>content = content ((os[a := \<lparr>content = content (os ! b)\<rparr>, b := \<lparr>content = content (os ! a)\<rparr>]) ! b)\<rparr>] = os"
  using assms by (auto simp: list_eq_iff_nth_eq nth_list_update)

lemma self_move_objs:
  assumes "a < length os"
  shows "(os[a := \<lparr>content = None\<rparr>] @ [\<lparr>content = content (os ! a)\<rparr>])
           [length os := \<lparr>content = content ((os[a := \<lparr>content = None\<rparr>] @ [\<lparr>content = content (os ! a)\<rparr>]) ! a)\<rparr>,
            a := \<lparr>content = content ((os[a := \<lparr>content = None\<rparr>] @ [\<lparr>content = content (os ! a)\<rparr>]) ! length os)\<rparr>]
         = os @ [\<lparr>content = None\<rparr>]"
  using assms by (auto simp: list_eq_iff_nth_eq nth_list_update nth_append)

lemma const_lvalue_bad_iff:
  "(fst (any_cast_const_lvalue ops T a s) = Inl bad_any_cast) =
   (any_cast_pointer (remove_cv (remove_reference T)) (Some a) s = None)"
  by (simp add: any_cast_const_lvalue_def const_pointer_eq Let_def split: option.splits sum.splits)

lemma lvalue_bad_iff:
  "(fst (any_cast_lvalue ops T a s) = Inl bad_any_cast) =
   (any_cast_pointer (remove_cv (remove_reference T)) (Some a) s = None)"
  by (simp add: any_cast_lvalue_def Let_def split: option.splits sum.splits)

lemma rvalue_bad_iff:
  "(fst (any_cast_rvalue ops T a s) = Inl bad_any_cast) =
   (any_cast_pointer (remove_cv (remove_reference T)) (Some a) s = None)"
  by (simp add: any_cast_rvalue_def Let_def split: option.splits sum.splits prod.splits)

subsection \<open>The invariant by positions, and its preservation\<close>

lemma set_map_filter: "set (List.map_filter f xs) = {y. \<exists>x\<in>set xs. f x = Some y}"
  by (induction xs) (auto split: option.splits)

lemma in_set_map_filter_nth:
  "(y \<in> set (List.map_filter f xs)) = (\<exists>i<length xs. f (xs ! i) = Some y)"
proof -
  have "(\<exists>x\<in>set xs. f x = Some y) = (\<exists>i<length xs. f (xs ! i) = Some y)"
    by (metis in_set_conv_nth)
  then show ?thesis by (simp add: set_map_filter)
qed

lemma distinct_map_filter_iff:
  "distinct (List.map_filter f xs) =
   (\<forall>i<length xs. \<forall>j<length xs. \<forall>p. f (xs ! i) = Some p \<and> f (xs ! j) = Some p \<longrightarrow> i = j)"
proof (induction xs)
  case Nil
  then show ?case by simp
next
  case (Cons x xs)
  show ?case
  proof (cases "f x")
    case None
    have "(\<forall>i<length (x # xs). \<forall>j<length (x # xs). \<forall>p.
             f ((x # xs) ! i) = Some p \<and> f ((x # xs) ! j) = Some p \<longrightarrow> i = j) =
          (\<forall>i<length xs. \<forall>j<length xs. \<forall>p. f (xs ! i) = Some p \<and> f (xs ! j) = Some p \<longrightarrow> i = j)"
      (is "?L = ?R")
    proof
      assume l: ?L
      show ?R
      proof (intro allI impI)
        fix i j p
        assume "i < length xs" "j < length xs" "f (xs ! i) = Some p \<and> f (xs ! j) = Some p"
        with l[rule_format, of "Suc i" "Suc j" p] show "i = j" by simp
      qed
    next
      assume r: ?R
      show ?L
      proof (intro allI impI)
        fix i j p
        assume a: "i < length (x # xs)" "j < length (x # xs)"
          "f ((x # xs) ! i) = Some p \<and> f ((x # xs) ! j) = Some p"
        with None obtain i' j' where "i = Suc i'" "j = Suc j'"
          by (cases i; cases j) auto
        with a r[rule_format, of i' j' p] show "i = j" by simp
      qed
    qed
    with None Cons show ?thesis by simp
  next
    case (Some y)
    have "(\<forall>i<length (x # xs). \<forall>j<length (x # xs). \<forall>p.
             f ((x # xs) ! i) = Some p \<and> f ((x # xs) ! j) = Some p \<longrightarrow> i = j) =
          ((\<forall>k<length xs. f (xs ! k) \<noteq> Some y) \<and>
           (\<forall>i<length xs. \<forall>j<length xs. \<forall>p. f (xs ! i) = Some p \<and> f (xs ! j) = Some p \<longrightarrow> i = j))"
      (is "?L = (?N \<and> ?R)")
    proof
      assume l: ?L
      have n: ?N
      proof (intro allI impI notI)
        fix k assume "k < length xs" "f (xs ! k) = Some y"
        with l[rule_format, of 0 "Suc k" y] Some show False by simp
      qed
      have ?R
      proof (intro allI impI)
        fix i j p
        assume "i < length xs" "j < length xs" "f (xs ! i) = Some p \<and> f (xs ! j) = Some p"
        with l[rule_format, of "Suc i" "Suc j" p] show "i = j" by simp
      qed
      with n show "?N \<and> ?R" ..
    next
      assume nr: "?N \<and> ?R"
      show ?L
      proof (intro allI impI)
        fix i j p
        assume a: "i < length (x # xs)" "j < length (x # xs)"
          "f ((x # xs) ! i) = Some p \<and> f ((x # xs) ! j) = Some p"
        show "i = j"
        proof (cases i)
          case 0
          with a Some nr show ?thesis by (cases j) auto
        next
          case (Suc i')
          with a Some nr show ?thesis by (cases j) auto
        qed
      qed
    qed
    moreover have "(y \<notin> set (List.map_filter f xs)) = (\<forall>k<length xs. f (xs ! k) \<noteq> Some y)"
      by (simp add: in_set_map_filter_nth)
    ultimately show ?thesis using Some Cons by simp
  qed
qed

lemma decayed_store_iff:
  "list_all decayed_holder h =
   (\<forall>p hl. holder_at h p = Some hl \<longrightarrow> decay (ValueType hl) = ValueType hl)"
proof
  assume l: "list_all decayed_holder h"
  show "\<forall>p hl. holder_at h p = Some hl \<longrightarrow> decay (ValueType hl) = ValueType hl"
  proof (intro allI impI)
    fix p hl
    assume "holder_at h p = Some hl"
    then have "p < length h" and "h ! p = Some hl"
      by (auto simp: holder_at_def split: if_splits)
    then have "Some hl \<in> set h"
      by (metis nth_mem)
    with l show "decay (ValueType hl) = ValueType hl"
      by (auto simp: list_all_iff decayed_holder_def)
  qed
next
  assume r: "\<forall>p hl. holder_at h p = Some hl \<longrightarrow> decay (ValueType hl) = ValueType hl"
  show "list_all decayed_holder h"
    unfolding list_all_iff
  proof
    fix c
    assume "c \<in> set h"
    then obtain p where "p < length h" and "h ! p = c"
      by (auto simp: in_set_conv_nth)
    then have "holder_at h p = c"
      by (simp add: holder_at_def)
    with r show "decayed_holder c"
      by (cases c) (auto simp: decayed_holder_def)
  qed
qed

lemma wf_iff: "wf s = (no_dangling (objs s) (heap s) \<and> one_owner (objs s) \<and> decayed_store (heap s))"
proof -
  have a: "list_all (live (heap s)) (owned s) = no_dangling (objs s) (heap s)"
    by (auto simp: list_all_iff owned_def in_set_map_filter_nth no_dangling_def)
  have b: "distinct (owned s) = one_owner (objs s)"
    by (simp only: owned_def distinct_map_filter_iff one_owner_def)
  show ?thesis
    by (simp only: wf_def a b decayed_store_iff decayed_store_def)
qed

lemma live_snoc: "live (h @ [c]) p = (if p = length h then c \<noteq> None else live h p)"
  by (simp add: live_def holder_at_snoc)

lemma live_bound: "live h p \<Longrightarrow> p < length h"
  by (simp add: live_def holder_at_def split: if_splits)

lemma holder_at_update:
  "holder_at (h[p := c]) q = (if q = p \<and> p < length h then c else holder_at h q)"
  by (auto simp: holder_at_def)

lemma live_update:
  "live (h[p := c]) q = (if q = p \<and> p < length h then c \<noteq> None else live h q)"
  by (simp add: live_def holder_at_update)

lemma deref_live: "live h p \<Longrightarrow> holder_at h p = Some (deref h p)"
  by (auto simp: live_def deref_def)

lemma nth_release_conv:
  "i < length os \<Longrightarrow>
   (content (os[a := \<lparr>content = None\<rparr>] ! i) = Some q) = (content (os ! i) = Some q \<and> i \<noteq> a)"
  by (cases "i = a") auto

text \<open>Preservation by the primitive steps, component by component.\<close>

lemma no_dangling_snoc_null:
  "no_dangling os h \<Longrightarrow> no_dangling (os @ [\<lparr>content = None\<rparr>]) h"
  by (auto simp: no_dangling_def nth_append)

lemma one_owner_snoc_null:
  "one_owner os \<Longrightarrow> one_owner (os @ [\<lparr>content = None\<rparr>])"
  by (auto simp: one_owner_def nth_append less_Suc_eq)

lemma no_dangling_snoc_fresh:
  "no_dangling os h \<Longrightarrow> no_dangling (os @ [\<lparr>content = Some (length h)\<rparr>]) (h @ [Some hl])"
  by (auto simp: no_dangling_def nth_append live_snoc)

lemma one_owner_snoc_fresh:
  "no_dangling os h \<Longrightarrow> one_owner os \<Longrightarrow> one_owner (os @ [\<lparr>content = Some (length h)\<rparr>])"
  unfolding one_owner_def no_dangling_def
  by (auto simp: nth_append less_Suc_eq dest!: live_bound)

lemma decayed_store_snoc:
  "decayed_store h \<Longrightarrow> decay (ValueType hl) = ValueType hl \<Longrightarrow> decayed_store (h @ [Some hl])"
  by (auto simp: decayed_store_def holder_at_snoc)

lemma decayed_store_update:
  "decayed_store h \<Longrightarrow> (\<And>hl. c = Some hl \<Longrightarrow> decay (ValueType hl) = ValueType hl) \<Longrightarrow>
   decayed_store (h[p := c])"
  by (auto simp: decayed_store_def holder_at_update split: if_splits)

lemma decayed_store_delete: "decayed_store h \<Longrightarrow> decayed_store (delete_holder c h)"
  by (cases c) (auto simp: delete_holder_def intro: decayed_store_update)

lemma wf_ctor_default: "wf s \<Longrightarrow> wf (snd (any_ctor_default s))"
  by (simp add: wf_iff any_ctor_default_def no_dangling_snoc_null one_owner_snoc_null)

lemma decay_idem: "decay (decay T) = decay T"
  by (simp add: decay_def remove_cv_def remove_reference_def)

lemma wf_holder_decayed:
  "wf s \<Longrightarrow> a < length (objs s) \<Longrightarrow> content (objs s ! a) = Some p \<Longrightarrow>
   live (heap s) p \<and> holder_at (heap s) p = Some (deref (heap s) p) \<and>
   decay (ValueType (deref (heap s) p)) = ValueType (deref (heap s) p)"
proof -
  assume w: "wf s" and a: "a < length (objs s)" and c: "content (objs s ! a) = Some p"
  from w a c have l: "live (heap s) p"
    by (auto simp: wf_iff no_dangling_def)
  then have h: "holder_at (heap s) p = Some (deref (heap s) p)"
    by (rule deref_live)
  with w have "decay (ValueType (deref (heap s) p)) = ValueType (deref (heap s) p)"
    by (auto simp: wf_iff decayed_store_def)
  with l h show ?thesis by simp
qed

lemma wf_store_value:
  assumes "wf s" and "live (heap s) p"
  shows "wf (s\<lparr>heap := (heap s)[p := Some ((deref (heap s) p)\<lparr>val := v\<rparr>)]\<rparr>)"
proof -
  from assms have h: "holder_at (heap s) p = Some (deref (heap s) p)"
    by (simp add: deref_live)
  with assms have d: "decay (ValueType (deref (heap s) p)) = ValueType (deref (heap s) p)"
    by (auto simp: wf_iff decayed_store_def)
  from assms have "no_dangling (objs s) ((heap s)[p := Some ((deref (heap s) p)\<lparr>val := v\<rparr>)])"
    by (auto simp: wf_iff no_dangling_def live_update)
  moreover have "decayed_store ((heap s)[p := Some ((deref (heap s) p)\<lparr>val := v\<rparr>)])"
    using assms d by (auto simp: wf_iff intro: decayed_store_update)
  ultimately show ?thesis
    using assms by (simp add: wf_iff)
qed

text \<open>What the constructor of the stored type does to the store.\<close>

lemma forward_construct_copies:
  "refness T = LvalueRef \<or> is_const T \<or> is_volatile T \<Longrightarrow>
   forward_construct ops T arg h = (copy_construct ops (argument_value h arg), h)"
  by (simp add: forward_construct_def)

lemma forward_construct_caller:
  "forward_construct ops T (caller_object v) h =
     (if refness T = LvalueRef \<or> is_const T \<or> is_volatile T
      then copy_construct ops v else fst (move_construct ops v), h)"
  by (simp add: forward_construct_def argument_value_def split_def Let_def)

lemma forward_construct_held:
  "forward_construct ops T (held_value p) h =
     (if refness T = LvalueRef \<or> is_const T \<or> is_volatile T
      then (copy_construct ops (val (deref h p)), h)
      else (fst (move_construct ops (val (deref h p))),
            h[p := Some ((deref h p)\<lparr>val := snd (move_construct ops (val (deref h p)))\<rparr>)]))"
  by (simp add: forward_construct_def argument_value_def split_def Let_def)

lemma forward_construct_length: "length (snd (forward_construct ops T arg h)) = length h"
  by (cases arg) (simp_all add: forward_construct_caller forward_construct_held)

lemma wf_forward_construct:
  assumes "wf s" and "valid_argument (heap s) arg"
  shows "wf (s\<lparr>heap := snd (forward_construct ops T arg (heap s))\<rparr>)"
proof (cases arg)
  case (caller_object v)
  with assms show ?thesis by (simp add: forward_construct_caller)
next
  case (held_value p)
  with assms have "live (heap s) p"
    by (simp add: valid_argument_def)
  with assms held_value show ?thesis
    by (simp add: forward_construct_held wf_store_value)
qed

lemma wf_snoc_holder:
  assumes "wf s" and "decay VT = VT"
  shows "wf \<lparr>objs = objs s @ [\<lparr>content = Some (length (heap s))\<rparr>],
             heap = heap s @ [Some \<lparr>ValueType = VT, val = v\<rparr>]\<rparr>"
  using assms
  by (simp add: wf_iff no_dangling_snoc_fresh one_owner_snoc_fresh decayed_store_snoc)

lemma make_unique_holder_eq:
  "make_unique_holder ops VT T arg h =
     (case fst (forward_construct ops T arg h) of
        Inl e \<Rightarrow> (Inl (value_exception e), snd (forward_construct ops T arg h))
      | Inr v' \<Rightarrow> (Inr (length h),
                    snd (forward_construct ops T arg h) @ [Some \<lparr>ValueType = VT, val = v'\<rparr>]))"
proof -
  obtain r h1 where f: "forward_construct ops T arg h = (r, h1)"
    by (cases "forward_construct ops T arg h")
  with forward_construct_length[of ops T arg h] have "length h1 = length h"
    by simp
  with f show ?thesis
    by (simp add: make_unique_holder_def split: sum.splits)
qed

lemma ctor_value_eq:
  "any_ctor_value ops T arg s =
     (case fst (forward_construct ops T arg (heap s)) of
        Inl e \<Rightarrow> (Inl (value_exception e), s\<lparr>heap := snd (forward_construct ops T arg (heap s))\<rparr>)
      | Inr v' \<Rightarrow>
          (Inr (length (objs s)),
           \<lparr>objs = objs s @ [\<lparr>content = Some (length (heap s))\<rparr>],
            heap = snd (forward_construct ops T arg (heap s)) @ [Some \<lparr>ValueType = decay T, val = v'\<rparr>]\<rparr>))"
  by (simp add: any_ctor_value_def make_unique_holder_eq split: sum.splits)

lemma wf_ctor_value:
  assumes "wf s" and "valid_argument (heap s) arg"
  shows "wf (snd (any_ctor_value ops T arg s))"
proof -
  let ?s1 = "s\<lparr>heap := snd (forward_construct ops T arg (heap s))\<rparr>"
  have w: "wf ?s1"
    using assms by (rule wf_forward_construct)
  show ?thesis
  proof (cases "fst (forward_construct ops T arg (heap s))")
    case (Inl e)
    with w show ?thesis by (simp add: ctor_value_eq)
  next
    case (Inr v')
    from wf_snoc_holder[OF w decay_idem, of T v'] Inr show ?thesis
      by (simp add: ctor_value_eq forward_construct_length)
  qed
qed

lemma ctor_copy_eq:
  "any_ctor_copy ops other s =
     (case content (objs s ! other) of
        None \<Rightarrow> (Inr (length (objs s)), s\<lparr>objs := objs s @ [\<lparr>content = None\<rparr>]\<rparr>)
      | Some p \<Rightarrow>
          (case copy_construct ops (val (deref (heap s) p)) of
             Inl e \<Rightarrow> (Inl (value_exception e), s)
           | Inr v' \<Rightarrow>
               (Inr (length (objs s)),
                \<lparr>objs = objs s @ [\<lparr>content = Some (length (heap s))\<rparr>],
                 heap = heap s @ [Some \<lparr>ValueType = ValueType (deref (heap s) p), val = v'\<rparr>]\<rparr>)))"
  by (simp add: any_ctor_copy_def holder_clone_def make_unique_holder_eq forward_construct_held
      split: option.splits sum.splits)

lemma wf_ctor_copy:
  assumes "wf s" and "other < length (objs s)"
  shows "wf (snd (any_ctor_copy ops other s))"
proof (cases "content (objs s ! other)")
  case None
  with assms show ?thesis
    by (simp add: wf_iff ctor_copy_eq no_dangling_snoc_null one_owner_snoc_null)
next
  case (Some p)
  with assms have d: "decay (ValueType (deref (heap s) p)) = ValueType (deref (heap s) p)"
    by (simp add: wf_holder_decayed)
  show ?thesis
  proof (cases "copy_construct ops (val (deref (heap s) p))")
    case (Inl e)
    with assms Some show ?thesis by (simp add: ctor_copy_eq)
  next
    case (Inr v')
    from wf_snoc_holder[OF assms(1) d, of v'] Inr Some show ?thesis
      by (simp add: ctor_copy_eq)
  qed
qed

lemma wf_ctor_move:
  assumes "wf s" and "other < length (objs s)"
  shows "wf (snd (any_ctor_move other s))"
proof -
  let ?os = "(objs s)[other := \<lparr>content = None\<rparr>] @ [\<lparr>content = content (objs s ! other)\<rparr>]"
  from assms have nd: "no_dangling (objs s) (heap s)" and oo: "one_owner (objs s)"
    by (simp_all add: wf_iff)
  have "no_dangling ?os (heap s)"
    using nd assms(2)
    by (auto simp: no_dangling_def nth_append nth_list_update less_Suc_eq split: if_splits)
  moreover have "one_owner ?os"
    unfolding one_owner_def
  proof (intro allI impI)
    fix i j p
    assume i: "i < length ?os" and j: "j < length ?os"
      and c: "content (?os ! i) = Some p \<and> content (?os ! j) = Some p"
    define src where "src k = (if k = length (objs s) then other else k)" for k
    have "\<And>k. k < length ?os \<Longrightarrow> content (?os ! k) = Some p \<Longrightarrow>
              k \<noteq> other \<and> src k < length (objs s) \<and> content (objs s ! src k) = Some p"
      using assms(2) by (auto simp: src_def nth_append nth_list_update split: if_splits)
    with i j c have
      "i \<noteq> other" "j \<noteq> other" "src i < length (objs s)" "src j < length (objs s)"
      "content (objs s ! src i) = Some p" "content (objs s ! src j) = Some p"
      by blast+
    with oo have "src i = src j"
      by (auto simp: one_owner_def)
    with \<open>i \<noteq> other\<close> \<open>j \<noteq> other\<close> show "i = j"
      by (auto simp: src_def split: if_splits)
  qed
  ultimately show ?thesis
    using assms by (simp add: wf_iff any_ctor_move_def)
qed

lemma wf_swap:
  assumes "wf s" and "a < length (objs s)" and "b < length (objs s)"
  shows "wf (any_swap a b s)"
proof -
  let ?os = "(objs s)[a := \<lparr>content = content (objs s ! b)\<rparr>, b := \<lparr>content = content (objs s ! a)\<rparr>]"
  define src where "src k = (if k = b then a else if k = a then b else k)" for k
  from assms have nd: "no_dangling (objs s) (heap s)" and oo: "one_owner (objs s)"
    by (simp_all add: wf_iff)
  have r: "\<And>k. k < length (objs s) \<Longrightarrow> content (?os ! k) = content (objs s ! src k) \<and> src k < length (objs s)"
    using assms(2,3) by (auto simp: src_def nth_list_update)
  have "no_dangling ?os (heap s)"
    using nd r by (auto simp: no_dangling_def)
  moreover have "one_owner ?os"
    unfolding one_owner_def
  proof (intro allI impI)
    fix i j p
    assume i: "i < length ?os" and j: "j < length ?os"
      and c: "content (?os ! i) = Some p \<and> content (?os ! j) = Some p"
    from i j have "i < length (objs s)" "j < length (objs s)"
      by simp_all
    with r[of i] r[of j] c have
      "src i < length (objs s)" "src j < length (objs s)"
      "content (objs s ! src i) = Some p" "content (objs s ! src j) = Some p"
      by simp_all
    with oo have "src i = src j"
      unfolding one_owner_def by blast
    then show "i = j"
      by (auto simp: src_def split: if_splits)
  qed
  ultimately show ?thesis
    using assms by (simp add: wf_iff any_swap_def)
qed

lemma wf_release:
  assumes "wf s" and "a < length (objs s)"
  shows "no_dangling ((objs s)[a := \<lparr>content = None\<rparr>]) (delete_holder (content (objs s ! a)) (heap s))"
proof -
  from assms have nd: "no_dangling (objs s) (heap s)" and oo: "one_owner (objs s)"
    by (simp_all add: wf_iff)
  show ?thesis
  proof (cases "content (objs s ! a)")
    case None
    with nd show ?thesis
      by (auto simp: no_dangling_def delete_holder_def nth_release_conv)
  next
    case (Some p)
    show ?thesis
      unfolding no_dangling_def
    proof (intro allI impI)
      fix i q
      assume i: "i < length ((objs s)[a := \<lparr>content = None\<rparr>])"
        and c: "content ((objs s)[a := \<lparr>content = None\<rparr>] ! i) = Some q"
      then have ia: "i \<noteq> a" and ci: "content (objs s ! i) = Some q" and il: "i < length (objs s)"
        by (simp_all add: nth_release_conv)
      with oo Some assms(2) have "q \<noteq> p"
        by (auto simp: one_owner_def)
      moreover from nd il ci have "live (heap s) q"
        by (auto simp: no_dangling_def)
      ultimately show "live (delete_holder (content (objs s ! a)) (heap s)) q"
        using Some by (simp add: delete_holder_def live_update)
    qed
  qed
qed

lemma one_owner_release:
  assumes "one_owner os"
  shows "one_owner (os[a := \<lparr>content = None\<rparr>])"
  using assms unfolding one_owner_def
  by (simp add: nth_release_conv)

lemma wf_reset:
  assumes "wf s" and "a < length (objs s)"
  shows "wf (any_reset a s)"
  using assms wf_release[OF assms]
  by (simp add: wf_iff any_reset_def one_owner_release decayed_store_delete)

lemma no_dangling_butlast:
  assumes "no_dangling (os[length os - 1 := x]) h"
  shows "no_dangling (butlast os) h"
  unfolding no_dangling_def
proof (intro allI impI)
  fix i p
  assume i: "i < length (butlast os)" and c: "content (butlast os ! i) = Some p"
  then have "i < length os" "i \<noteq> length os - 1" "content (os ! i) = Some p"
    by (auto simp: nth_butlast)
  then have "i < length (os[length os - 1 := x])"
    "content (os[length os - 1 := x] ! i) = Some p"
    by simp_all
  with assms show "live h p"
    unfolding no_dangling_def by blast
qed

lemma one_owner_butlast: "one_owner os \<Longrightarrow> one_owner (butlast os)"
  by (auto simp: one_owner_def nth_butlast)

lemma wf_dtor:
  assumes "wf s" and "objs s \<noteq> []"
  shows "wf (any_dtor s)"
proof -
  from assms(2) have l: "length (objs s) - 1 < length (objs s)"
    by simp
  from assms(2) have "last (objs s) = objs s ! (length (objs s) - 1)"
    by (simp add: last_conv_nth)
  with wf_release[OF assms(1) l]
  have "no_dangling (butlast (objs s)) (delete_holder (content (last (objs s))) (heap s))"
    by (simp add: no_dangling_butlast)
  with assms show ?thesis
    by (simp add: wf_iff any_dtor_def one_owner_butlast decayed_store_delete)
qed

lemma ctor_copy_throw_state: "fst (any_ctor_copy ops other s) = Inl e \<Longrightarrow> snd (any_ctor_copy ops other s) = s"
  by (auto simp: ctor_copy_eq split: option.splits sum.splits)

lemma ctor_copy_result:
  "fst (any_ctor_copy ops other s) = Inr tmp \<Longrightarrow>
   tmp = length (objs s) \<and> length (objs (snd (any_ctor_copy ops other s))) = Suc (length (objs s))"
  by (auto simp: ctor_copy_eq split: option.splits sum.splits)

lemma ctor_value_throw_state:
  "fst (any_ctor_value ops T arg s) = Inl x \<Longrightarrow>
   snd (any_ctor_value ops T arg s) = s\<lparr>heap := snd (forward_construct ops T arg (heap s))\<rparr> \<and>
   (\<exists>e. x = value_exception e \<and> fst (forward_construct ops T arg (heap s)) = Inl e)"
  by (auto simp: ctor_value_eq split: sum.splits)

lemma ctor_value_result:
  "fst (any_ctor_value ops T arg s) = Inr tmp \<Longrightarrow>
   tmp = length (objs s) \<and> length (objs (snd (any_ctor_value ops T arg s))) = Suc (length (objs s))"
  by (auto simp: ctor_value_eq split: sum.splits)

lemma wf_swap_dtor:
  assumes "wf s1" and "tmp < length (objs s1)" and "this < length (objs s1)"
  shows "wf (any_dtor (any_swap tmp this s1))"
proof -
  have "wf (any_swap tmp this s1)"
    using assms by (rule wf_swap)
  moreover have "objs (any_swap tmp this s1) \<noteq> []"
    using assms(2) by (auto simp: any_swap_def)
  ultimately show ?thesis
    by (rule wf_dtor)
qed

lemma wf_assign_copy:
  assumes "wf s" and "this < length (objs s)" and "rhs < length (objs s)"
  shows "wf (snd (any_assign_copy ops this rhs s))"
proof (cases "fst (any_ctor_copy ops rhs s)")
  case (Inl e)
  then have "any_ctor_copy ops rhs s = (Inl e, s)"
    using ctor_copy_throw_state[of ops rhs s e] by (simp add: prod_eq_iff)
  with assms show ?thesis
    by (simp add: any_assign_copy_def and_then_simps)
next
  case (Inr tmp)
  then obtain s1 where c: "any_ctor_copy ops rhs s = (Inr tmp, s1)"
    by (cases "any_ctor_copy ops rhs s") simp
  from ctor_copy_result[OF Inr] assms c have "tmp < length (objs s1)" "this < length (objs s1)"
    by simp_all
  moreover from wf_ctor_copy[OF assms(1,3), of ops] c have "wf s1"
    by simp
  ultimately have "wf (any_dtor (any_swap tmp this s1))"
    by (simp add: wf_swap_dtor)
  then show ?thesis
    by (simp add: any_assign_copy_def c and_then_simps)
qed

lemma wf_assign_value:
  assumes "wf s" and "this < length (objs s)" and "valid_argument (heap s) arg"
  shows "wf (snd (any_assign_value ops this T arg s))"
proof -
  obtain r s1 where c: "any_ctor_value ops T arg s = (r, s1)"
    by (cases "any_ctor_value ops T arg s")
  from wf_ctor_value[OF assms(1,3), of ops T] c have w: "wf s1"
    by simp
  show ?thesis
  proof (cases r)
    case (Inl x)
    with c w show ?thesis
      by (simp add: any_assign_value_def and_then_simps)
  next
    case (Inr tmp)
    with c have "fst (any_ctor_value ops T arg s) = Inr tmp"
      by simp
    from ctor_value_result[OF this] assms c have "tmp < length (objs s1)" "this < length (objs s1)"
      by simp_all
    with w have "wf (any_dtor (any_swap tmp this s1))"
      by (simp add: wf_swap_dtor)
    with c Inr show ?thesis
      by (simp add: any_assign_value_def and_then_simps)
  qed
qed

lemma wf_assign_move:
  assumes "wf s" and "this < length (objs s)" and "rhs < length (objs s)"
  shows "wf (snd (any_assign_move this rhs s))"
proof -
  let ?s1 = "snd (any_ctor_move rhs s)"
  have "length (objs ?s1) = Suc (length (objs s))" and f: "fst (any_ctor_move rhs s) = length (objs s)"
    by (simp_all add: any_ctor_move_def)
  with assms wf_ctor_move[OF assms(1,3)]
  have "wf (any_dtor (any_swap (length (objs s)) this ?s1))"
    by (simp add: wf_swap_dtor)
  with f show ?thesis
    by (simp add: any_assign_move_def split_def Let_def)
qed

lemma wf_assign_through:
  assumes "wf s" and "live (heap s) p"
  shows "wf (assign_through p v s)"
  using assms by (simp add: assign_through_def wf_store_value)

lemma cast_const_lvalue_state: "snd (any_cast_const_lvalue ops T a s) = s"
  by (simp add: any_cast_const_lvalue_def Let_def split: option.splits sum.splits)

lemma cast_lvalue_state: "snd (any_cast_lvalue ops T a s) = s"
  by (simp add: any_cast_lvalue_def Let_def split: option.splits sum.splits)

lemma cast_rvalue_state:
  "snd (any_cast_rvalue ops T a s) =
   (case any_cast_pointer (remove_cv (remove_reference T)) (Some a) s of
      None \<Rightarrow> s
    | Some p \<Rightarrow> if is_reference T then s
                else assign_through p (snd (move_construct ops (val (deref (heap s) p)))) s)"
  by (simp add: any_cast_rvalue_def assign_through_def Let_def split_def
      split: option.splits sum.splits)

lemma wf_cast_rvalue:
  assumes "wf s" and "a < length (objs s)"
  shows "wf (snd (any_cast_rvalue ops T a s))"
proof (cases "any_cast_pointer (remove_cv (remove_reference T)) (Some a) s")
  case None
  with assms show ?thesis by (simp add: cast_rvalue_state)
next
  case (Some p)
  then have "content (objs s ! a) = Some p"
    by (simp add: any_cast_pointer_def split: if_splits)
  with assms have "live (heap s) p"
    by (simp add: wf_holder_decayed)
  with assms Some show ?thesis
    by (simp add: cast_rvalue_state wf_assign_through)
qed

subsection \<open>Storing and extracting\<close>

text \<open>
  C1. Storing a value through the value constructor, from an argument of static type
  \<open>T\<close> (an object of the caller with value \<open>v\<close>, or a held value \<open>v\<close>), and then extracting
  with a pointer form as \<open>decay T\<close>: the result is a non-null
  pointer to the held value, which is the value \<open>v'\<close> that the stored type's constructor
  made from \<open>v\<close> (so \<open>v\<close> itself for a constructor that copies faithfully). Extracting as
  any \<open>U\<close> whose decayed type differs returns null: nothing is converted.
\<close>

theorem store_then_extract_roundtrip:
  assumes "fst (forward_construct ops T arg (heap s)) = Inr v'"
  shows "let a = length (objs s); q = length (heap s); s' = snd (any_ctor_value ops T arg s) in
           fst (any_ctor_value ops T arg s) = Inr a \<and>
           any_cast_pointer (decay T) (Some a) s' = Some q \<and>
           any_cast_const_pointer (decay T) (Some a) s' = Some q \<and>
           holder_at (heap s') q = Some \<lparr>ValueType = decay T, val = v'\<rparr> \<and>
           (\<forall>U. decay U \<noteq> decay T \<longrightarrow>
                any_cast_pointer U (Some a) s' = None \<and>
                any_cast_const_pointer U (Some a) s' = None)"
  using assms
  by (simp add: ctor_value_eq any_cast_pointer_def
      any_cast_const_pointer_def any_type_def holder_type_def deref_def holder_at_snoc
      forward_construct_length typeid_decay decay_neq_iff Let_def)

theorem store_then_extract_roundtrip_witness:
  "fst (forward_construct example_ops T_const_int_ref (caller_object (IntV 42)) (heap example_state))
     = Inr (IntV 42) \<and>
   fst (any_ctor_value example_ops T_const_int_ref (caller_object (IntV 42)) example_state) = Inr 4 \<and>
   any_cast_pointer T_int (Some 4)
     (snd (any_ctor_value example_ops T_const_int_ref (caller_object (IntV 42)) example_state)) = Some 3 \<and>
   holder_at (heap (snd (any_ctor_value example_ops T_const_int_ref (caller_object (IntV 42)) example_state))) 3
     = Some \<lparr>ValueType = T_int, val = IntV 42\<rparr> \<and>
   any_cast_pointer T_double (Some 4)
     (snd (any_ctor_value example_ops T_const_int_ref (caller_object (IntV 42)) example_state)) = None"
proof -
  have h: "fst (forward_construct example_ops T_const_int_ref (caller_object (IntV 42)) (heap example_state))
             = Inr (IntV 42)"
    by (simp add: forward_construct_caller example_ops_def T_const_int_ref_def)
  have d: "decay T_double \<noteq> decay T_const_int_ref"
    by (simp add: example_decay) (simp add: T_double_def T_int_def)
  show ?thesis
    using h d store_then_extract_roundtrip [OF h]
    by (simp add: Let_def example_decay example_lengths)
qed

text \<open>
  C2. Each value form throws \<open>bad_any_cast\<close> exactly when the pointer form on
  \<open>remove_cv_t<remove_reference_t<T>>\<close> returns null, that is exactly when the container is
  empty or its recorded type differs from the identifier of the decayed \<open>T\<close>; it then leaves
  the state as it was. The pointer forms are \<open>noexcept\<close>: total functions of the state
  returning a pointer or null (null for a null operand), with no exceptional outcome.
\<close>

theorem value_form_throws_iff_pointer_null:
  "(let value_type = remove_cv (remove_reference T);
        no_match = (any_cast_pointer value_type (Some a) s = None) in
      any_cast_pointer U None s = None \<and>
      any_cast_const_pointer U None s = None \<and>
      any_cast_const_pointer value_type (Some a) s = any_cast_pointer value_type (Some a) s \<and>
      no_match = (\<not> any_has_value s a \<or> any_type s a \<noteq> typeid (decay T)) \<and>
      (fst (any_cast_const_lvalue ops T a s) = Inl bad_any_cast) = no_match \<and>
      (fst (any_cast_lvalue ops T a s) = Inl bad_any_cast) = no_match \<and>
      (fst (any_cast_rvalue ops T a s) = Inl bad_any_cast) = no_match \<and>
      (no_match \<longrightarrow> any_cast_const_lvalue ops T a s = (Inl bad_any_cast, s) \<and>
                    any_cast_lvalue ops T a s = (Inl bad_any_cast, s) \<and>
                    any_cast_rvalue ops T a s = (Inl bad_any_cast, s)))"
  unfolding Let_def
  apply (intro conjI impI)
           apply (simp add: any_cast_pointer_def)
          apply (simp add: any_cast_const_pointer_def)
         apply (rule const_pointer_eq)
        apply (simp add: pointer_null_iff typeid_value_type typeid_decay)
       apply (rule const_lvalue_bad_iff)
      apply (rule lvalue_bad_iff)
     apply (rule rvalue_bad_iff)
    apply (simp add: any_cast_const_lvalue_def const_pointer_eq)
   apply (simp add: any_cast_lvalue_def)
  apply (simp add: any_cast_rvalue_def)
  done

theorem value_form_throws_iff_pointer_null_witness:
  "any_cast_pointer T_int (Some 0) example_state = None \<and>
   any_cast_lvalue example_ops T_int 0 example_state = (Inl bad_any_cast, example_state) \<and>
   any_cast_const_lvalue example_ops T_int 0 example_state = (Inl bad_any_cast, example_state) \<and>
   any_cast_rvalue example_ops T_int 0 example_state = (Inl bad_any_cast, example_state) \<and>
   any_cast_pointer T_int (Some 2) example_state = Some 1 \<and>
   fst (any_cast_lvalue example_ops T_int 2 example_state) \<noteq> Inl bad_any_cast"
proof -
  have n: "any_cast_pointer T_int (Some 0) example_state = None"
    by (simp add: any_cast_pointer_def example_types example_typeids)
  have m: "any_cast_pointer T_int (Some 2) example_state = Some 1"
    by (simp add: any_cast_pointer_def example_types example_contents)
  show ?thesis
    using n m value_form_throws_iff_pointer_null [of T_int 0 example_state T_int example_ops]
      value_form_throws_iff_pointer_null [of T_int 2 example_state T_int example_ops]
    by (simp add: Let_def example_decay)
qed

subsection \<open>The empty container\<close>

text \<open>
  C3. A default-constructed container has no value and reports the type identifier of
  \<open>void\<close>; on it, both pointer forms of \<open>any_cast\<close> return null for every type \<open>T\<close>, and
  the three value forms throw \<open>bad_any_cast\<close> for every \<open>T\<close> (and leave the state as it
  is). \<open>has_value\<close> and \<open>type\<close> are \<open>noexcept\<close>: they are total functions with no
  exceptional outcome.
\<close>

theorem fresh_any_is_empty:
  "fst (any_ctor_default s) = length (objs s) \<and>
   (let s' = snd (any_ctor_default s); a = length (objs s) in
      \<not> any_has_value s' a \<and>
      any_type s' a = typeid_void \<and>
      any_cast_pointer T (Some a) s' = None \<and>
      any_cast_const_pointer T (Some a) s' = None \<and>
      any_cast_const_lvalue ops T a s' = (Inl bad_any_cast, s') \<and>
      any_cast_lvalue ops T a s' = (Inl bad_any_cast, s') \<and>
      any_cast_rvalue ops T a s' = (Inl bad_any_cast, s'))"
  by (simp add: any_ctor_default_def any_has_value_def any_type_def any_cast_pointer_def
      any_cast_const_pointer_def any_cast_const_lvalue_def any_cast_lvalue_def
      any_cast_rvalue_def typeid_def Let_def)

subsection \<open>Assignment\<close>

lemma assign_value_throws:
  "fst (forward_construct ops T arg (heap s)) = Inl e \<Longrightarrow>
   any_assign_value ops this T arg s =
     (Inl (value_exception e), s\<lparr>heap := snd (forward_construct ops T arg (heap s))\<rparr>)"
  by (simp add: any_assign_value_def ctor_value_eq and_then_simps)

lemma assign_value_throw_state:
  "fst (any_assign_value ops this T arg s) = Inl x \<Longrightarrow>
   snd (any_assign_value ops this T arg s) =
     s\<lparr>heap := snd (forward_construct ops T arg (heap s))\<rparr>"
  by (auto simp: any_assign_value_def ctor_value_eq and_then_simps split: sum.splits)

lemma store_value_type:
  assumes "live h p"
  shows "holder_type (deref (h[p := Some ((deref h p)\<lparr>val := v\<rparr>)]) q) = holder_type (deref h q)"
proof -
  from assms have "p < length h"
    by (rule live_bound)
  then show ?thesis
    by (simp add: deref_def holder_at_update holder_type_def)
qed

lemma forward_construct_type:
  assumes "live h p"
  shows "holder_type (deref (snd (forward_construct ops T (held_value p) h)) q) = holder_type (deref h q)"
  using assms by (simp add: forward_construct_held store_value_type)

text \<open>
  C4 (as amended). Copy assignment is atomic on failure: when the copy constructor of the
  value held by the right-hand side throws \<open>e\<close>, the assignment throws \<open>e\<close> and the whole
  state is as before (the target still holds its value, with its type), and whenever a
  copy assignment throws the state is unchanged. Value assignment throws the
  exception \<open>e\<close> of the stored type's constructor and leaves every container with its
  holder; the whole state is as before when the argument is copied (an lvalue or a
  cv-qualified argument) or is an object that no container holds. When the argument is
  a value that a live holder holds and it is moved from, \<open>has_value()\<close> and \<open>type()\<close> of
  every container are as before and every other held value is unchanged, while the
  moved-from held value is what the throwing move constructor left.
\<close>

theorem assignment_strong_guarantee:
  "(content (objs s ! rhs) = Some p \<and> holder_at (heap s) p = Some hl \<and>
      copy_construct ops (val hl) = Inl e \<longrightarrow>
      any_assign_copy ops this rhs s = (Inl (value_exception e), s)) \<and>
   (fst (any_assign_copy ops this rhs s) = Inl x \<longrightarrow> snd (any_assign_copy ops this rhs s) = s) \<and>
   (fst (forward_construct ops T arg (heap s)) = Inl e \<longrightarrow>
      any_assign_value ops this T arg s =
        (Inl (value_exception e), s\<lparr>heap := snd (forward_construct ops T arg (heap s))\<rparr>)) \<and>
   (fst (any_assign_value ops this T arg s) = Inl x \<longrightarrow>
      (let s' = snd (any_assign_value ops this T arg s) in
         objs s' = objs s \<and>
         (refness T = LvalueRef \<or> is_const T \<or> is_volatile T \<or> (\<exists>v. arg = caller_object v)
            \<longrightarrow> s' = s) \<and>
         (\<forall>q. arg = held_value q \<and> live (heap s) q \<longrightarrow>
            (\<forall>a. any_has_value s' a = any_has_value s a \<and> any_type s' a = any_type s a) \<and>
            (\<forall>r. r \<noteq> q \<longrightarrow> holder_at (heap s') r = holder_at (heap s) r) \<and>
            (\<not> (refness T = LvalueRef \<or> is_const T \<or> is_volatile T) \<longrightarrow>
               holder_at (heap s') q =
                 Some ((deref (heap s) q)\<lparr>val := snd (move_construct ops (val (deref (heap s) q)))\<rparr>)))))"
proof (intro conjI impI)
  assume "content (objs s ! rhs) = Some p \<and> holder_at (heap s) p = Some hl \<and>
          copy_construct ops (val hl) = Inl e"
  then show "any_assign_copy ops this rhs s = (Inl (value_exception e), s)"
    by (simp add: any_assign_copy_def ctor_copy_eq deref_def and_then_simps)
next
  assume "fst (any_assign_copy ops this rhs s) = Inl x"
  then show "snd (any_assign_copy ops this rhs s) = s"
    by (simp add: any_assign_copy_def ctor_copy_eq and_then_def
        split: option.splits sum.splits prod.splits)
next
  assume "fst (forward_construct ops T arg (heap s)) = Inl e"
  then show "any_assign_value ops this T arg s =
        (Inl (value_exception e), s\<lparr>heap := snd (forward_construct ops T arg (heap s))\<rparr>)"
    by (rule assign_value_throws)
next
  assume "fst (any_assign_value ops this T arg s) = Inl x"
  then have st: "snd (any_assign_value ops this T arg s) =
                   s\<lparr>heap := snd (forward_construct ops T arg (heap s))\<rparr>"
    by (rule assign_value_throw_state)
  have same: "s\<lparr>heap := snd (forward_construct ops T arg (heap s))\<rparr> = s"
    if "refness T = LvalueRef \<or> is_const T \<or> is_volatile T \<or> (\<exists>v. arg = caller_object v)"
    using that by (auto simp: forward_construct_copies forward_construct_caller)
  have held: "(\<forall>a. any_has_value (s\<lparr>heap := snd (forward_construct ops T arg (heap s))\<rparr>) a
                    = any_has_value s a \<and>
                  any_type (s\<lparr>heap := snd (forward_construct ops T arg (heap s))\<rparr>) a = any_type s a) \<and>
              (\<forall>r. r \<noteq> q \<longrightarrow>
                 holder_at (snd (forward_construct ops T arg (heap s))) r = holder_at (heap s) r) \<and>
              (\<not> (refness T = LvalueRef \<or> is_const T \<or> is_volatile T) \<longrightarrow>
                 holder_at (snd (forward_construct ops T arg (heap s))) q =
                   Some ((deref (heap s) q)\<lparr>val := snd (move_construct ops (val (deref (heap s) q)))\<rparr>))"
    if a: "arg = held_value q \<and> live (heap s) q" for q
  proof -
    from a have l: "live (heap s) q" and ql: "q < length (heap s)"
      by (simp_all add: live_bound)
    have "any_type (s\<lparr>heap := snd (forward_construct ops T arg (heap s))\<rparr>) b = any_type s b" for b
      using a forward_construct_type[OF l, of ops T]
      by (simp add: any_type_def split: option.splits)
    moreover have "\<forall>r. r \<noteq> q \<longrightarrow>
        holder_at (snd (forward_construct ops T arg (heap s))) r = holder_at (heap s) r"
      using a by (simp add: forward_construct_held holder_at_update)
    moreover have "\<not> (refness T = LvalueRef \<or> is_const T \<or> is_volatile T) \<longrightarrow>
        holder_at (snd (forward_construct ops T arg (heap s))) q =
          Some ((deref (heap s) q)\<lparr>val := snd (move_construct ops (val (deref (heap s) q)))\<rparr>)"
      using a ql by (simp add: forward_construct_held holder_at_update)
    ultimately show ?thesis
      by (simp add: any_has_value_def)
  qed
  show "let s' = snd (any_assign_value ops this T arg s) in
         objs s' = objs s \<and>
         (refness T = LvalueRef \<or> is_const T \<or> is_volatile T \<or> (\<exists>v. arg = caller_object v)
            \<longrightarrow> s' = s) \<and>
         (\<forall>q. arg = held_value q \<and> live (heap s) q \<longrightarrow>
            (\<forall>a. any_has_value s' a = any_has_value s a \<and> any_type s' a = any_type s a) \<and>
            (\<forall>r. r \<noteq> q \<longrightarrow> holder_at (heap s') r = holder_at (heap s) r) \<and>
            (\<not> (refness T = LvalueRef \<or> is_const T \<or> is_volatile T) \<longrightarrow>
               holder_at (heap s') q =
                 Some ((deref (heap s) q)\<lparr>val := snd (move_construct ops (val (deref (heap s) q)))\<rparr>)))"
    unfolding Let_def st
    using same held by simp
qed

theorem assignment_strong_guarantee_witness:
  "content (objs example_state ! 3) = Some 2 \<and>
   holder_at (heap example_state) 2 = Some \<lparr>ValueType = T_string, val = StringV ''throws on copy''\<rparr> \<and>
   copy_construct example_ops (StringV ''throws on copy'') = Inl ''copy failed'' \<and>
   fst (forward_construct example_ops T_const_string_ref (caller_object (StringV ''throws on copy''))
          (heap example_state)) = Inl ''copy failed'' \<and>
   any_assign_copy example_ops 0 3 example_state = (Inl (value_exception ''copy failed''), example_state) \<and>
   any_assign_value example_ops 0 T_const_string_ref (caller_object (StringV ''throws on copy''))
       example_state
     = (Inl (value_exception ''copy failed''), example_state) \<and>
   any_type example_state 0 = typeid T_string \<and>
   holder_at (heap example_state) 0 = Some \<lparr>ValueType = T_string, val = StringV ''Hello, any!''\<rparr> \<and>
   live (heap example_state) 0 \<and>
   fst (any_assign_value throwing_move_ops 0 T_string (held_value 0) example_state)
     = Inl (value_exception ''move failed'') \<and>
   objs (snd (any_assign_value throwing_move_ops 0 T_string (held_value 0) example_state))
     = objs example_state \<and>
   any_type (snd (any_assign_value throwing_move_ops 0 T_string (held_value 0) example_state)) 0
     = typeid T_string \<and>
   holder_at (heap (snd (any_assign_value throwing_move_ops 0 T_string (held_value 0) example_state))) 2
     = Some \<lparr>ValueType = T_string, val = StringV ''throws on copy''\<rparr>"
proof -
  have c: "copy_construct example_ops (StringV ''throws on copy'') = Inl ''copy failed''"
    by (simp add: example_ops_def)
  have d: "forward_construct example_ops T_const_string_ref (caller_object (StringV ''throws on copy''))
             (heap example_state) = (Inl ''copy failed'', heap example_state)"
    by (simp add: forward_construct_caller example_ops_def T_const_string_ref_def)
  have l: "live (heap example_state) 0"
    by (simp add: live_def example_holders)
  have m: "fst (forward_construct throwing_move_ops T_string (held_value 0) (heap example_state))
             = Inl ''move failed''"
    by (simp add: forward_construct_held throwing_move_ops_def T_string_def)
  have t: "fst (any_assign_value throwing_move_ops 0 T_string (held_value 0) example_state)
             = Inl (value_exception ''move failed'')"
    using m by (simp add: assign_value_throws)
  have n: "(2::nat) \<noteq> 0"
    by simp
  show ?thesis
    using c d l t n example_contents(4) example_holders(3)
      assignment_strong_guarantee [of example_state 3 2
        "\<lparr>ValueType = T_string, val = StringV ''throws on copy''\<rparr>"
        example_ops "''copy failed''" 0 "value_exception ''copy failed''" T_const_string_ref
        "caller_object (StringV ''throws on copy'')"]
      assignment_strong_guarantee [of example_state 3 2
        "\<lparr>ValueType = T_string, val = StringV ''throws on copy''\<rparr>"
        throwing_move_ops "''move failed''" 0 "value_exception ''move failed''" T_string
        "held_value 0"]
    by (simp add: Let_def example_types example_holders)
qed

text \<open>
  The claim as first stated, that a value assignment that throws leaves the target
  holding its value, fails for \<open>a = std::move(any_cast<X&>(a))\<close> with a move constructor
  of \<open>X\<close> that empties its argument and then throws: the assignment throws, the container
  keeps its holder and its type, and the held value is no longer \<open>Hello, any!\<close>.
\<close>

theorem assignment_strong_guarantee_counterexample:
  "any_cast_pointer T_string (Some 0) example_state = Some 0 \<and>
   holder_at (heap example_state) 0 = Some \<lparr>ValueType = T_string, val = StringV ''Hello, any!''\<rparr> \<and>
   fst (any_assign_value throwing_move_ops 0 T_string (held_value 0) example_state)
     = Inl (value_exception ''move failed'') \<and>
   content (objs (snd (any_assign_value throwing_move_ops 0 T_string (held_value 0) example_state)) ! 0)
     = Some 0 \<and>
   holder_at (heap (snd (any_assign_value throwing_move_ops 0 T_string (held_value 0) example_state))) 0
     = Some \<lparr>ValueType = T_string, val = StringV []\<rparr> \<and>
   snd (any_assign_value throwing_move_ops 0 T_string (held_value 0) example_state) \<noteq> example_state"
proof -
  have d: "deref (heap example_state) 0 = \<lparr>ValueType = T_string, val = StringV ''Hello, any!''\<rparr>"
    by (simp add: deref_def example_holders)
  have f: "forward_construct throwing_move_ops T_string (held_value 0) (heap example_state) =
             (Inl ''move failed'',
              (heap example_state)[0 := Some \<lparr>ValueType = T_string, val = StringV []\<rparr>])"
    by (simp add: forward_construct_held throwing_move_ops_def T_string_def d)
  have a: "any_assign_value throwing_move_ops 0 T_string (held_value 0) example_state =
             (Inl (value_exception ''move failed''),
              example_state\<lparr>heap := (heap example_state)[0 := Some \<lparr>ValueType = T_string, val = StringV []\<rparr>]\<rparr>)"
    using f by (simp add: assign_value_throws)
  have p: "any_cast_pointer T_string (Some 0) example_state = Some 0"
    by (simp add: any_cast_pointer_def example_types example_contents)
  have h: "holder_at ((heap example_state)[0 := Some \<lparr>ValueType = T_string, val = StringV []\<rparr>]) 0
             = Some \<lparr>ValueType = T_string, val = StringV []\<rparr>"
    by (simp add: holder_at_update example_lengths)
  have ne: "example_state\<lparr>heap := (heap example_state)[0 := Some \<lparr>ValueType = T_string, val = StringV []\<rparr>]\<rparr>
              \<noteq> example_state"
  proof
    assume "example_state\<lparr>heap := (heap example_state)[0 := Some \<lparr>ValueType = T_string, val = StringV []\<rparr>]\<rparr>
              = example_state"
    then have "holder_at (heap (example_state\<lparr>heap := (heap example_state)[0 := Some \<lparr>ValueType = T_string, val = StringV []\<rparr>]\<rparr>)) 0
                 = holder_at (heap example_state) 0"
      by simp
    with h show False
      by (simp add: example_holders)
  qed
  show ?thesis
    using p h ne by (simp add: a example_holders example_contents)
qed

text \<open>
  C10. Move-assigning a container to itself returns the container and leaves the whole
  state as it was: the temporary takes the holder, the swap gives it back.
\<close>

theorem self_move_assign_keeps_value:
  assumes "a < length (objs s)"
  shows "any_assign_move a a s = (a, s)"
  using assms self_move_objs[OF assms]
  by (simp add: any_assign_move_def any_ctor_move_def any_swap_def any_dtor_def
      delete_holder_def)

theorem self_move_assign_keeps_value_witness:
  "(0::nat) < length (objs example_state) \<and>
   any_assign_move 0 0 example_state = (0, example_state) \<and>
   any_has_value example_state 0 \<and> any_type example_state 0 = typeid T_string"
proof -
  have a: "(0::nat) < length (objs example_state)"
    by (simp add: example_lengths)
  show ?thesis
    using a self_move_assign_keeps_value [OF a]
    by (simp add: example_types any_has_value_def example_contents)
qed

subsection \<open>Swap\<close>

text \<open>
  C7. \<open>a.swap(b)\<close> exchanges the two \<open>content\<close> pointers and nothing else: the free store
  (and with it every held value) is untouched, no other container changes, and
  \<open>b.swap(a)\<close> afterwards restores the state. The names may alias, and either container
  may be empty. \<open>swap\<close> is \<open>noexcept\<close> and uses no operation of the stored type (it does
  not take them as a parameter). The non-member \<open>swap\<close> is the same function.
\<close>

theorem swap_exchanges_holders:
  assumes "a < length (objs s)" and "b < length (objs s)"
  shows "heap (any_swap a b s) = heap s \<and>
         length (objs (any_swap a b s)) = length (objs s) \<and>
         content (objs (any_swap a b s) ! a) = content (objs s ! b) \<and>
         content (objs (any_swap a b s) ! b) = content (objs s ! a) \<and>
         (\<forall>c. c \<noteq> a \<and> c \<noteq> b \<longrightarrow> objs (any_swap a b s) ! c = objs s ! c) \<and>
         any_swap b a (any_swap a b s) = s \<and>
         swap_any a b s = any_swap a b s"
  using assms swap_twice_objs[of a "objs s" b]
  by (auto simp: any_swap_def swap_any_def nth_list_update)

theorem swap_exchanges_holders_witness:
  "(0::nat) < length (objs example_state) \<and> Suc 0 < length (objs example_state) \<and>
   content (objs (any_swap 0 (Suc 0) example_state) ! 0) = None \<and>
   content (objs (any_swap 0 (Suc 0) example_state) ! Suc 0) = Some 0 \<and>
   heap (any_swap 0 (Suc 0) example_state) = heap example_state \<and>
   any_swap (Suc 0) 0 (any_swap 0 (Suc 0) example_state) = example_state"
proof -
  have a: "(0::nat) < length (objs example_state)" and b: "Suc 0 < length (objs example_state)"
    by (simp_all add: example_lengths)
  show ?thesis
    using a b swap_exchanges_holders [OF a b]
    by (simp add: example_contents)
qed

subsection \<open>Moving\<close>

lemma example_wf: "wf example_state"
  by (simp add: wf_def owned_def live_def holder_at_def decayed_holder_def example_state_def
      List.map_filter_simps example_decay)

lemma move_assign_objs:
  assumes "a < length os" and "b < length os" and "a \<noteq> b"
  shows "butlast ((os[a := \<lparr>content = None\<rparr>] @ [\<lparr>content = content (os ! a)\<rparr>])
           [length os := \<lparr>content = content ((os[a := \<lparr>content = None\<rparr>] @ [\<lparr>content = content (os ! a)\<rparr>]) ! b)\<rparr>,
            b := \<lparr>content = content ((os[a := \<lparr>content = None\<rparr>] @ [\<lparr>content = content (os ! a)\<rparr>]) ! length os)\<rparr>])
         = os[a := \<lparr>content = None\<rparr>, b := \<lparr>content = content (os ! a)\<rparr>]"
    and "last ((os[a := \<lparr>content = None\<rparr>] @ [\<lparr>content = content (os ! a)\<rparr>])
           [length os := \<lparr>content = content ((os[a := \<lparr>content = None\<rparr>] @ [\<lparr>content = content (os ! a)\<rparr>]) ! b)\<rparr>,
            b := \<lparr>content = content ((os[a := \<lparr>content = None\<rparr>] @ [\<lparr>content = content (os ! a)\<rparr>]) ! length os)\<rparr>])
         = \<lparr>content = content (os ! b)\<rparr>"
  using assms
  by (auto simp: list_eq_iff_nth_eq nth_list_update nth_append nth_butlast last_conv_nth)

lemma assign_move_state:
  assumes "a < length (objs s)" and "b < length (objs s)" and "a \<noteq> b"
  shows "any_assign_move b a s =
         (b, \<lparr>objs = (objs s)[a := \<lparr>content = None\<rparr>, b := \<lparr>content = content (objs s ! a)\<rparr>],
              heap = delete_holder (content (objs s ! b)) (heap s)\<rparr>)"
  using assms move_assign_objs[OF assms]
  by (simp add: any_assign_move_def any_ctor_move_def any_swap_def any_dtor_def)

text \<open>
  C6. For two distinct containers \<open>a\<close> and \<open>b\<close> in a well-formed state, \<open>b = std::move(a)\<close>
  returns \<open>b\<close>; afterwards \<open>b\<close> owns the holder that \<open>a\<close> owned (the very same holder, with
  its value and type; \<open>b\<close> is empty if \<open>a\<close> was), \<open>a\<close> is empty, the holder \<open>b\<close> owned before
  has been deleted, and no other container changed. Move construction from \<open>a\<close> gives a
  new container with \<open>a\<close>'s holder, leaves \<open>a\<close> empty and the free store untouched. Both
  are \<open>noexcept\<close> and have no exceptional outcome. (The aliased case \<open>a = std::move(a)\<close>
  is treated with the assignments above.)
\<close>

theorem move_transfers_ownership:
  assumes "wf s" and "a < length (objs s)" and "b < length (objs s)" and "a \<noteq> b"
  shows "(let s' = snd (any_assign_move b a s) in
            fst (any_assign_move b a s) = b \<and>
            length (objs s') = length (objs s) \<and>
            content (objs s' ! b) = content (objs s ! a) \<and>
            content (objs s' ! a) = None \<and>
            any_has_value s' b = any_has_value s a \<and>
            \<not> any_has_value s' a \<and>
            any_type s' b = any_type s a \<and>
            (\<forall>p. content (objs s ! a) = Some p \<longrightarrow> holder_at (heap s') p = holder_at (heap s) p) \<and>
            heap s' = delete_holder (content (objs s ! b)) (heap s) \<and>
            (\<forall>c. c \<noteq> a \<and> c \<noteq> b \<longrightarrow> objs s' ! c = objs s ! c) \<and>
            wf s') \<and>
         (let b' = fst (any_ctor_move a s); s' = snd (any_ctor_move a s) in
            b' = length (objs s) \<and>
            content (objs s' ! b') = content (objs s ! a) \<and>
            content (objs s' ! a) = None \<and>
            any_has_value s' b' = any_has_value s a \<and>
            \<not> any_has_value s' a \<and>
            any_type s' b' = any_type s a \<and>
            heap s' = heap s \<and>
            (\<forall>c<length (objs s). c \<noteq> a \<longrightarrow> objs s' ! c = objs s ! c) \<and>
            wf s')"
proof -
  let ?s' = "\<lparr>objs = (objs s)[a := \<lparr>content = None\<rparr>, b := \<lparr>content = content (objs s ! a)\<rparr>],
              heap = delete_holder (content (objs s ! b)) (heap s)\<rparr>"
  have st: "any_assign_move b a s = (b, ?s')"
    using assms(2-4) by (rule assign_move_state)
  have keep: "holder_at (heap ?s') p = holder_at (heap s) p" if p: "content (objs s ! a) = Some p" for p
  proof (cases "content (objs s ! b)")
    case None
    then show ?thesis by (simp add: delete_holder_def)
  next
    case (Some q)
    with assms p have "q \<noteq> p"
      by (auto simp: wf_iff one_owner_def)
    with Some show ?thesis
      by (simp add: delete_holder_def holder_at_update)
  qed
  have ty: "any_type ?s' b = any_type s a"
    using assms(2-4) keep
    by (cases "content (objs s ! a)") (simp_all add: any_type_def deref_def)
  have w: "wf (snd (any_assign_move b a s))"
    using assms(1,3,2) by (rule wf_assign_move)
  have first: "let s' = snd (any_assign_move b a s) in
            fst (any_assign_move b a s) = b \<and>
            length (objs s') = length (objs s) \<and>
            content (objs s' ! b) = content (objs s ! a) \<and>
            content (objs s' ! a) = None \<and>
            any_has_value s' b = any_has_value s a \<and>
            \<not> any_has_value s' a \<and>
            any_type s' b = any_type s a \<and>
            (\<forall>p. content (objs s ! a) = Some p \<longrightarrow> holder_at (heap s') p = holder_at (heap s) p) \<and>
            heap s' = delete_holder (content (objs s ! b)) (heap s) \<and>
            (\<forall>c. c \<noteq> a \<and> c \<noteq> b \<longrightarrow> objs s' ! c = objs s ! c) \<and>
            wf s'"
    using assms(2-4) keep ty w
    by (simp add: st any_has_value_def)
  have second: "let b' = fst (any_ctor_move a s); s' = snd (any_ctor_move a s) in
            b' = length (objs s) \<and>
            content (objs s' ! b') = content (objs s ! a) \<and>
            content (objs s' ! a) = None \<and>
            any_has_value s' b' = any_has_value s a \<and>
            \<not> any_has_value s' a \<and>
            any_type s' b' = any_type s a \<and>
            heap s' = heap s \<and>
            (\<forall>c<length (objs s). c \<noteq> a \<longrightarrow> objs s' ! c = objs s ! c) \<and>
            wf s'"
    using assms(2) wf_ctor_move[OF assms(1,2)]
    by (simp add: any_ctor_move_def any_has_value_def any_type_def nth_append
        split: option.splits)
  from first second show ?thesis ..
qed

theorem move_transfers_ownership_witness:
  "wf example_state \<and> (2::nat) < length (objs example_state) \<and> (0::nat) < length (objs example_state) \<and>
   any_has_value example_state 2 \<and> any_has_value example_state 0 \<and>
   fst (any_assign_move 0 2 example_state) = 0 \<and>
   any_has_value (snd (any_assign_move 0 2 example_state)) 0 \<and>
   \<not> any_has_value (snd (any_assign_move 0 2 example_state)) 2 \<and>
   any_type (snd (any_assign_move 0 2 example_state)) 0 = typeid T_int \<and>
   holder_at (heap (snd (any_assign_move 0 2 example_state))) 1 = Some \<lparr>ValueType = T_int, val = IntV 42\<rparr> \<and>
   holder_at (heap (snd (any_assign_move 0 2 example_state))) 0 = None \<and>
   fst (any_ctor_move 2 example_state) = 4 \<and>
   \<not> any_has_value (snd (any_ctor_move 2 example_state)) 2"
proof -
  have w: "wf example_state"
    by (simp add: wf_def owned_def live_def holder_at_def decayed_holder_def example_state_def
        List.map_filter_simps example_decay)
  have a: "(2::nat) < length (objs example_state)" and b: "(0::nat) < length (objs example_state)"
    by (simp_all add: example_lengths)
  have n: "(2::nat) \<noteq> 0" by simp
  have h: "any_has_value example_state 2" "any_has_value example_state 0"
    by (simp_all add: any_has_value_def example_contents)
  show ?thesis
    using w a b h move_transfers_ownership [OF w a b n]
    by (simp add: Let_def example_types example_contents example_holders example_lengths
        delete_holder_def holder_at_update)
qed

subsection \<open>Copy construction\<close>

text \<open>
  C5. Copying an empty container gives an empty one. Copying a container \<open>a\<close> whose holder
  is at \<open>p\<close>, when the copy constructor of the held value returns \<open>v'\<close>: the new container
  owns a holder at a fresh address \<open>q\<close> (different from \<open>p\<close>, not live before), of the same
  \<open>ValueType\<close>, holding \<open>v'\<close>; \<open>a\<close> and its holder are as before. A mutable extraction from the
  copy returns \<open>q\<close>, and an assignment through it changes the value at \<open>q\<close> and leaves the
  holder of \<open>a\<close> as it was.
\<close>

theorem copy_is_deep_and_independent:
  assumes "wf s" and "a < length (objs s)"
  shows "(content (objs s ! a) = None \<longrightarrow>
            (let b = length (objs s); s' = snd (any_ctor_copy ops a s) in
               fst (any_ctor_copy ops a s) = Inr b \<and>
               \<not> any_has_value s' b \<and>
               heap s' = heap s)) \<and>
         (\<forall>p v'. content (objs s ! a) = Some p \<and>
                 copy_construct ops (val (deref (heap s) p)) = Inr v' \<longrightarrow>
            (let b = length (objs s); q = length (heap s); s' = snd (any_ctor_copy ops a s);
                 VT = ValueType (deref (heap s) p) in
               fst (any_ctor_copy ops a s) = Inr b \<and>
               content (objs s' ! b) = Some q \<and>
               q \<noteq> p \<and> \<not> live (heap s) q \<and>
               holder_at (heap s') q = Some \<lparr>ValueType = VT, val = v'\<rparr> \<and>
               any_type s' b = any_type s a \<and>
               content (objs s' ! a) = Some p \<and>
               holder_at (heap s') p = holder_at (heap s) p \<and>
               any_cast_pointer VT (Some b) s' = Some q \<and>
               (\<forall>v2. holder_at (heap (assign_through q v2 s')) q = Some \<lparr>ValueType = VT, val = v2\<rparr> \<and>
                     holder_at (heap (assign_through q v2 s')) p = holder_at (heap s) p \<and>
                     objs (assign_through q v2 s') = objs s')))"
proof (intro conjI impI allI)
  assume "content (objs s ! a) = None"
  then show "let b = length (objs s); s' = snd (any_ctor_copy ops a s) in
               fst (any_ctor_copy ops a s) = Inr b \<and> \<not> any_has_value s' b \<and> heap s' = heap s"
    by (simp add: ctor_copy_eq any_has_value_def)
next
  fix p v'
  assume h: "content (objs s ! a) = Some p \<and> copy_construct ops (val (deref (heap s) p)) = Inr v'"
  let ?VT = "ValueType (deref (heap s) p)"
  let ?s' = "\<lparr>objs = objs s @ [\<lparr>content = Some (length (heap s))\<rparr>],
              heap = heap s @ [Some \<lparr>ValueType = ?VT, val = v'\<rparr>]\<rparr>"
  from assms h have l: "live (heap s) p" and hp: "holder_at (heap s) p = Some (deref (heap s) p)"
    by (simp_all add: wf_holder_decayed)
  from l have pl: "p < length (heap s)"
    by (rule live_bound)
  have st: "any_ctor_copy ops a s = (Inr (length (objs s)), ?s')"
    using h
    by (simp add: ctor_copy_eq)
  have nl: "\<not> live (heap s) (length (heap s))"
    by (simp add: live_def holder_at_def)
  have ty: "any_type ?s' (length (objs s)) = any_type s a"
    using h by (simp add: any_type_def holder_type_def deref_def holder_at_snoc)
  have pt: "any_cast_pointer ?VT (Some (length (objs s))) ?s' = Some (length (heap s))"
    by (simp add: any_cast_pointer_def any_type_def holder_type_def deref_def holder_at_snoc)
  have mut: "holder_at (heap (assign_through (length (heap s)) v2 ?s')) (length (heap s))
               = Some \<lparr>ValueType = ?VT, val = v2\<rparr> \<and>
             holder_at (heap (assign_through (length (heap s)) v2 ?s')) p = holder_at (heap s) p \<and>
             objs (assign_through (length (heap s)) v2 ?s') = objs ?s'" for v2
    using pl by (simp add: assign_through_def holder_at_update holder_at_snoc deref_def)
  show "let b = length (objs s); q = length (heap s); s' = snd (any_ctor_copy ops a s);
            VT = ValueType (deref (heap s) p) in
          fst (any_ctor_copy ops a s) = Inr b \<and>
          content (objs s' ! b) = Some q \<and>
          q \<noteq> p \<and> \<not> live (heap s) q \<and>
          holder_at (heap s') q = Some \<lparr>ValueType = VT, val = v'\<rparr> \<and>
          any_type s' b = any_type s a \<and>
          content (objs s' ! a) = Some p \<and>
          holder_at (heap s') p = holder_at (heap s) p \<and>
          any_cast_pointer VT (Some b) s' = Some q \<and>
          (\<forall>v2. holder_at (heap (assign_through q v2 s')) q = Some \<lparr>ValueType = VT, val = v2\<rparr> \<and>
                holder_at (heap (assign_through q v2 s')) p = holder_at (heap s) p \<and>
                objs (assign_through q v2 s') = objs s')"
    unfolding Let_def st fst_conv snd_conv
    using pl nl ty pt mut assms(2) h
    by (simp add: holder_at_snoc nth_append)
qed

theorem copy_is_deep_and_independent_witness:
  "wf example_state \<and> (0::nat) < length (objs example_state) \<and>
   content (objs example_state ! 0) = Some 0 \<and>
   copy_construct example_ops (val (deref (heap example_state) 0)) = Inr (StringV ''Hello, any!'') \<and>
   fst (any_ctor_copy example_ops 0 example_state) = Inr 4 \<and>
   content (objs (snd (any_ctor_copy example_ops 0 example_state)) ! 4) = Some 3 \<and>
   holder_at (heap (snd (any_ctor_copy example_ops 0 example_state))) 3
     = Some \<lparr>ValueType = T_string, val = StringV ''Hello, any!''\<rparr> \<and>
   holder_at (heap (assign_through 3 (StringV ''changed'')
       (snd (any_ctor_copy example_ops 0 example_state)))) 3
     = Some \<lparr>ValueType = T_string, val = StringV ''changed''\<rparr> \<and>
   holder_at (heap (assign_through 3 (StringV ''changed'')
       (snd (any_ctor_copy example_ops 0 example_state)))) 0
     = Some \<lparr>ValueType = T_string, val = StringV ''Hello, any!''\<rparr> \<and>
   content (objs example_state ! Suc 0) = None \<and>
   fst (any_ctor_copy example_ops (Suc 0) example_state) = Inr 4 \<and>
   \<not> any_has_value (snd (any_ctor_copy example_ops (Suc 0) example_state)) 4"
proof -
  have a: "(0::nat) < length (objs example_state)" and b: "Suc 0 < length (objs example_state)"
    by (simp_all add: example_lengths)
  have d: "deref (heap example_state) 0 = \<lparr>ValueType = T_string, val = StringV ''Hello, any!''\<rparr>"
    by (simp add: deref_def example_holders)
  have c: "copy_construct example_ops (val (deref (heap example_state) 0)) = Inr (StringV ''Hello, any!'')"
    by (simp add: d example_ops_def)
  show ?thesis
    using a c copy_is_deep_and_independent [OF example_wf a, of example_ops]
      copy_is_deep_and_independent [OF example_wf b, of example_ops]
    by (simp add: Let_def example_contents example_lengths example_holders d example_wf)
qed

subsection \<open>Extraction from an rvalue\<close>

text \<open>
  C8. In a well-formed state, \<open>any_cast<T>(std::move(a))\<close> on a container whose type matches
  \<open>T\<close> does not throw \<open>bad_any_cast\<close> and leaves every container as it was: \<open>a\<close> still has
  a value, of the same type. For a non-reference \<open>T\<close> the result is what the move
  constructor made of the held value, and the holder keeps the moved-from value; for a
  reference \<open>T\<close> the result refers to the held value and the state is unchanged.
\<close>

theorem rvalue_extraction_keeps_container:
  assumes "wf s" and "a < length (objs s)" and "any_type s a = typeid T"
  shows "\<exists>p. content (objs s ! a) = Some p \<and>
           (let r = any_cast_rvalue ops T a s; s' = snd r; hl = deref (heap s) p;
                m = move_construct ops (val hl) in
              fst r \<noteq> Inl bad_any_cast \<and>
              objs s' = objs s \<and>
              any_has_value s' a \<and>
              any_type s' a = any_type s a \<and>
              wf s' \<and>
              (if is_reference T then r = (Inr (by_reference p), s)
               else fst r = (case fst m of Inl e \<Rightarrow> Inl (value_exception e)
                                         | Inr v \<Rightarrow> Inr (by_value v)) \<and>
                    holder_at (heap s') p = Some (hl\<lparr>val := snd m\<rparr>) \<and>
                    (\<forall>q. q \<noteq> p \<longrightarrow> holder_at (heap s') q = holder_at (heap s) q)))"
proof -
  from assms(3) obtain p where c: "content (objs s ! a) = Some p"
    using typeid_not_void[of T]
    by (cases "content (objs s ! a)") (auto simp: any_type_def)
  from assms c have l: "live (heap s) p" and hp: "holder_at (heap s) p = Some (deref (heap s) p)"
    by (simp_all add: wf_holder_decayed)
  from l have pl: "p < length (heap s)"
    by (rule live_bound)
  have pt: "any_cast_pointer (remove_cv (remove_reference T)) (Some a) s = Some p"
    using assms(3) c by (simp add: any_cast_pointer_def typeid_value_type)
  have w: "wf (snd (any_cast_rvalue ops T a s))"
    using assms(1,2) by (rule wf_cast_rvalue)
  have st: "snd (any_cast_rvalue ops T a s) =
            (if is_reference T then s
             else assign_through p (snd (move_construct ops (val (deref (heap s) p)))) s)"
    by (simp add: cast_rvalue_state pt)
  have ob: "objs (snd (any_cast_rvalue ops T a s)) = objs s"
    by (simp add: st assign_through_def)
  have hv: "any_has_value (snd (any_cast_rvalue ops T a s)) a"
    by (simp add: any_has_value_def ob c)
  have ty: "any_type (snd (any_cast_rvalue ops T a s)) a = any_type s a"
    using pl hp by (simp add: any_type_def ob c st assign_through_def deref_def holder_at_update
        holder_type_def)
  have nb: "fst (any_cast_rvalue ops T a s) \<noteq> Inl bad_any_cast"
    by (simp add: rvalue_bad_iff pt)
  have rf: "is_reference T \<Longrightarrow> any_cast_rvalue ops T a s = (Inr (by_reference p), s)"
    by (simp add: any_cast_rvalue_def pt)
  have mv: "\<not> is_reference T \<Longrightarrow>
            fst (any_cast_rvalue ops T a s) =
              (case fst (move_construct ops (val (deref (heap s) p))) of
                 Inl e \<Rightarrow> Inl (value_exception e) | Inr v \<Rightarrow> Inr (by_value v)) \<and>
            holder_at (heap (snd (any_cast_rvalue ops T a s))) p =
              Some ((deref (heap s) p)\<lparr>val := snd (move_construct ops (val (deref (heap s) p)))\<rparr>) \<and>
            (\<forall>q. q \<noteq> p \<longrightarrow>
               holder_at (heap (snd (any_cast_rvalue ops T a s))) q = holder_at (heap s) q)"
    using pl
    by (simp add: st assign_through_def holder_at_update)
       (simp add: any_cast_rvalue_def pt Let_def split_def split: sum.splits)
  show ?thesis
    using c w ob hv ty nb rf mv
    by (auto simp: Let_def)
qed

theorem rvalue_extraction_keeps_container_witness:
  "wf example_state \<and> (0::nat) < length (objs example_state) \<and>
   any_type example_state 0 = typeid T_string \<and>
   any_cast_rvalue example_ops T_string 0 example_state =
     (Inr (by_value (StringV ''Hello, any!'')),
      assign_through 0 (StringV []) example_state) \<and>
   any_has_value (snd (any_cast_rvalue example_ops T_string 0 example_state)) 0 \<and>
   any_type (snd (any_cast_rvalue example_ops T_string 0 example_state)) 0 = typeid T_string \<and>
   holder_at (heap (snd (any_cast_rvalue example_ops T_string 0 example_state))) 0 =
     Some \<lparr>ValueType = T_string, val = StringV []\<rparr>"
proof -
  have a: "(0::nat) < length (objs example_state)"
    by (simp add: example_lengths)
  have d: "deref (heap example_state) 0 = \<lparr>ValueType = T_string, val = StringV ''Hello, any!''\<rparr>"
    by (simp add: deref_def example_holders)
  have m: "move_construct example_ops (StringV ''Hello, any!'') = (Inr (StringV ''Hello, any!''), StringV [])"
    by (simp add: example_ops_def)
  have n: "\<not> is_reference T_string"
    by (simp add: is_reference_def T_string_def)
  have p: "any_cast_pointer T_string (Some 0) example_state = Some 0"
    by (simp add: any_cast_pointer_def example_types example_contents)
  have r: "any_cast_rvalue example_ops T_string 0 example_state =
     (Inr (by_value (StringV ''Hello, any!'')), assign_through 0 (StringV []) example_state)"
    by (simp add: any_cast_rvalue_def example_decay p n d m assign_through_def)
  show ?thesis
    using a r n rvalue_extraction_keeps_container [OF example_wf a example_types(1), of example_ops]
    by (simp add: Let_def example_wf example_types example_contents d m)
qed

subsection \<open>The representation invariant is preserved\<close>

lemma has_value_iff_holder:
  assumes "wf s" and "a < length (objs s)"
  shows "any_has_value s a =
         (\<exists>p hl. content (objs s ! a) = Some p \<and> holder_at (heap s) p = Some hl \<and>
                 decay (ValueType hl) = ValueType hl \<and> any_type s a = typeid (ValueType hl))"
proof (cases "content (objs s ! a)")
  case None
  then show ?thesis by (simp add: any_has_value_def)
next
  case (Some p)
  with assms have "holder_at (heap s) p = Some (deref (heap s) p)"
    "decay (ValueType (deref (heap s) p)) = ValueType (deref (heap s) p)"
    by (simp_all add: wf_holder_decayed)
  with Some show ?thesis
    by (simp add: any_has_value_def any_type_def holder_type_def)
qed

lemma ctor_value_tag:
  assumes "fst (forward_construct ops T arg (heap s)) = Inr v'"
  shows "let c = length (objs s); s' = snd (any_ctor_value ops T arg s) in
           any_has_value s' c \<and> any_type s' c = typeid (decay T) \<and>
           content (objs s' ! c) = Some (length (heap s)) \<and>
           holder_at (heap s') (length (heap s)) = Some \<lparr>ValueType = decay T, val = v'\<rparr>"
  using assms
  by (simp add: ctor_value_eq any_has_value_def any_type_def
      holder_type_def deref_def holder_at_snoc forward_construct_length Let_def)

lemma assign_value_objs:
  assumes "a < length os"
  shows "butlast ((os @ [\<lparr>content = Some q\<rparr>])
           [length os := \<lparr>content = content ((os @ [\<lparr>content = Some q\<rparr>]) ! a)\<rparr>,
            a := \<lparr>content = content ((os @ [\<lparr>content = Some q\<rparr>]) ! length os)\<rparr>])
         = os[a := \<lparr>content = Some q\<rparr>]"
    and "last ((os @ [\<lparr>content = Some q\<rparr>])
           [length os := \<lparr>content = content ((os @ [\<lparr>content = Some q\<rparr>]) ! a)\<rparr>,
            a := \<lparr>content = content ((os @ [\<lparr>content = Some q\<rparr>]) ! length os)\<rparr>])
         = \<lparr>content = content (os ! a)\<rparr>"
  using assms
  by (auto simp: list_eq_iff_nth_eq nth_list_update nth_append nth_butlast last_conv_nth)

lemma assign_value_state:
  assumes "a < length (objs s)" and "fst (forward_construct ops T arg (heap s)) = Inr v'"
  shows "any_assign_value ops a T arg s =
         (Inr a, \<lparr>objs = (objs s)[a := \<lparr>content = Some (length (heap s))\<rparr>],
                  heap = delete_holder (content (objs s ! a))
                           (snd (forward_construct ops T arg (heap s)) @
                              [Some \<lparr>ValueType = decay T, val = v'\<rparr>])\<rparr>)"
  using assms assign_value_objs[OF assms(1), of "length (heap s)"]
  by (simp add: any_assign_value_def ctor_value_eq and_then_simps
      any_swap_def any_dtor_def)

lemma assign_value_tag:
  assumes "wf s" and "a < length (objs s)"
    and "fst (forward_construct ops T arg (heap s)) = Inr v'"
  shows "let s' = snd (any_assign_value ops a T arg s) in
           any_has_value s' a \<and> any_type s' a = typeid (decay T) \<and>
           content (objs s' ! a) = Some (length (heap s)) \<and>
           holder_at (heap s') (length (heap s)) = Some \<lparr>ValueType = decay T, val = v'\<rparr>"
proof -
  let ?h1 = "snd (forward_construct ops T arg (heap s))"
  have len: "length ?h1 = length (heap s)"
    by (rule forward_construct_length)
  have "holder_at (delete_holder (content (objs s ! a))
           (?h1 @ [Some \<lparr>ValueType = decay T, val = v'\<rparr>])) (length (heap s))
        = Some \<lparr>ValueType = decay T, val = v'\<rparr>"
  proof (cases "content (objs s ! a)")
    case None
    then show ?thesis by (simp add: delete_holder_def holder_at_snoc len)
  next
    case (Some p)
    with assms have "p < length (heap s)"
      by (simp add: wf_holder_decayed live_bound)
    with Some show ?thesis
      by (simp add: delete_holder_def holder_at_update holder_at_snoc len)
  qed
  with assms(2) show ?thesis
    by (simp add: assign_value_state[OF assms(2,3)] any_has_value_def any_type_def
        holder_type_def deref_def Let_def)
qed

text \<open>
  C9. From a well-formed state, every constructor, the destructor, every assignment,
  \<open>reset\<close>, \<open>swap\<close>, every \<open>any_cast\<close> and an assignment through an extracted pointer lead to
  a well-formed state (whether or not they throw); the argument of the value constructor
  and of the value assignment is an object of the caller or the value of a live holder.
  In a well-formed state \<open>has_value()\<close> is
  true exactly when \<open>content\<close> designates a live holder, whose \<open>ValueType\<close> is a decayed
  type and is the type that \<open>type()\<close> reports. The holder that the value constructor or
  the value assignment creates from an argument of static type \<open>T\<close> has
  \<open>ValueType = decay T\<close>, and \<open>type()\<close> then reports \<open>typeid(decay T)\<close>.
\<close>

theorem operations_preserve_invariant:
  assumes "wf s" and "a < length (objs s)" and "b < length (objs s)"
  shows "wf (snd (any_ctor_default s)) \<and>
         wf (snd (any_ctor_copy ops a s)) \<and>
         wf (snd (any_ctor_move a s)) \<and>
         wf (snd (any_ctor_value ops T (caller_object v) s)) \<and>
         (live (heap s) q \<longrightarrow> wf (snd (any_ctor_value ops T (held_value q) s))) \<and>
         wf (any_dtor s) \<and>
         wf (snd (any_assign_copy ops a b s)) \<and>
         wf (snd (any_assign_move a b s)) \<and>
         wf (snd (any_assign_value ops a T (caller_object v) s)) \<and>
         (live (heap s) q \<longrightarrow> wf (snd (any_assign_value ops a T (held_value q) s))) \<and>
         wf (any_reset a s) \<and>
         wf (any_swap a b s) \<and>
         wf (swap_any a b s) \<and>
         wf (snd (any_cast_const_lvalue ops T a s)) \<and>
         wf (snd (any_cast_lvalue ops T a s)) \<and>
         wf (snd (any_cast_rvalue ops T a s)) \<and>
         (\<forall>p. live (heap s) p \<longrightarrow> wf (assign_through p v s)) \<and>
         any_has_value s a =
           (\<exists>p hl. content (objs s ! a) = Some p \<and> holder_at (heap s) p = Some hl \<and>
                   decay (ValueType hl) = ValueType hl \<and> any_type s a = typeid (ValueType hl)) \<and>
         (\<forall>v'. fst (forward_construct ops T arg (heap s)) = Inr v' \<longrightarrow>
            (let c = length (objs s); s' = snd (any_ctor_value ops T arg s) in
               any_has_value s' c \<and> any_type s' c = typeid (decay T) \<and>
               content (objs s' ! c) = Some (length (heap s)) \<and>
               holder_at (heap s') (length (heap s)) = Some \<lparr>ValueType = decay T, val = v'\<rparr>) \<and>
            (let s' = snd (any_assign_value ops a T arg s) in
               any_has_value s' a \<and> any_type s' a = typeid (decay T) \<and>
               content (objs s' ! a) = Some (length (heap s)) \<and>
               holder_at (heap s') (length (heap s)) = Some \<lparr>ValueType = decay T, val = v'\<rparr>))"
proof -
  from assms(2) have ne: "objs s \<noteq> []"
    by auto
  have tags: "\<forall>v'. fst (forward_construct ops T arg (heap s)) = Inr v' \<longrightarrow>
            (let c = length (objs s); s' = snd (any_ctor_value ops T arg s) in
               any_has_value s' c \<and> any_type s' c = typeid (decay T) \<and>
               content (objs s' ! c) = Some (length (heap s)) \<and>
               holder_at (heap s') (length (heap s)) = Some \<lparr>ValueType = decay T, val = v'\<rparr>) \<and>
            (let s' = snd (any_assign_value ops a T arg s) in
               any_has_value s' a \<and> any_type s' a = typeid (decay T) \<and>
               content (objs s' ! a) = Some (length (heap s)) \<and>
               holder_at (heap s') (length (heap s)) = Some \<lparr>ValueType = decay T, val = v'\<rparr>)"
    using ctor_value_tag[of ops T arg s] assign_value_tag[OF assms(1,2), of ops T arg]
    by blast
  have thr: "\<forall>p. live (heap s) p \<longrightarrow> wf (assign_through p v s)"
    using assms(1) by (simp add: wf_assign_through)
  have vc: "valid_argument (heap s) (caller_object v)"
    by (simp add: valid_argument_def)
  have cv: "wf (snd (any_ctor_value ops T (caller_object v) s))"
    using assms(1) vc by (rule wf_ctor_value)
  have av: "wf (snd (any_assign_value ops a T (caller_object v) s))"
    using assms(1,2) vc by (rule wf_assign_value)
  have ch: "live (heap s) q \<longrightarrow> wf (snd (any_ctor_value ops T (held_value q) s))"
    using assms(1) by (simp add: wf_ctor_value valid_argument_def)
  have ah: "live (heap s) q \<longrightarrow> wf (snd (any_assign_value ops a T (held_value q) s))"
    using assms(1,2) by (simp add: wf_assign_value valid_argument_def)
  show ?thesis
    using assms ne tags thr cv av ch ah has_value_iff_holder[OF assms(1,2)]
    by (simp only: wf_ctor_default wf_ctor_copy wf_ctor_move wf_dtor wf_assign_copy
        wf_assign_move wf_reset wf_swap swap_any_def cast_const_lvalue_state
        cast_lvalue_state wf_cast_rvalue simp_thms)
qed

theorem operations_preserve_invariant_witness:
  "wf example_state \<and> (0::nat) < length (objs example_state) \<and> (2::nat) < length (objs example_state) \<and>
   wf (snd (any_assign_copy example_ops 0 2 example_state)) \<and>
   wf (snd (any_assign_move 0 2 example_state)) \<and>
   wf (any_reset 0 example_state) \<and>
   wf (any_dtor example_state) \<and>
   any_has_value example_state 0 \<and>
   live (heap example_state) 0 \<and>
   wf (snd (any_assign_value throwing_move_ops 0 T_string (held_value 0) example_state)) \<and>
   fst (forward_construct example_ops T_const_int_ref (caller_object (IntV 7)) (heap example_state))
     = Inr (IntV 7) \<and>
   any_type (snd (any_assign_value example_ops 0 T_const_int_ref (caller_object (IntV 7))
                    example_state)) 0 = typeid T_int"
proof -
  have a: "(0::nat) < length (objs example_state)" and b: "(2::nat) < length (objs example_state)"
    by (simp_all add: example_lengths)
  have f: "fst (forward_construct example_ops T_const_int_ref (caller_object (IntV 7))
                  (heap example_state)) = Inr (IntV 7)"
    by (simp add: forward_construct_caller example_ops_def T_const_int_ref_def)
  have h: "any_has_value example_state 0"
    by (simp add: any_has_value_def example_contents)
  have l: "live (heap example_state) 0"
    by (simp add: live_def example_holders)
  show ?thesis
    using a b f h l
      operations_preserve_invariant [OF example_wf a b, of example_ops T_const_int_ref "IntV 7" 0
        "caller_object (IntV 7)"]
      operations_preserve_invariant [OF example_wf a b, of throwing_move_ops T_string "IntV 7" 0
        "held_value 0"]
    by (simp add: Let_def example_wf example_decay)
qed

end
